theory Spec2Isabelle
  imports Main "HOL-Library.Sublist"
begin

chapter \<open>The program\<close>

section \<open>Letter case in Unicode\<close>

text \<open>
  \<open>String.prototype.toLowerCase\<close> is the operation toLowercase of the Unicode Standard
  (Default Case Conversion), applied to the code points of the string.  It is given by
  three tables of the Unicode Character Database, here those of Unicode 14.0; a character
  assigned in a later version is left as it is.

  The first table is the lower-case mapping of a single code point.  A rule
  \<open>(lo, hi, step, delta)\<close> maps every code point \<open>lo\<close>, \<open>lo + step\<close>, ... up to \<open>hi\<close>
  to itself plus \<open>delta\<close>.  The rules are in the order of \<open>lo\<close>.
\<close>

definition lower_rules :: "(int \<times> int \<times> int \<times> int) list" where
  "lower_rules =
     [(65, 90, 1, 32), (192, 214, 1, 32), (216, 222, 1, 32), (256, 302, 2, 1), (306, 310, 2, 1),
      (313, 327, 2, 1), (330, 374, 2, 1), (376, 376, 1, - 121), (377, 381, 2, 1),
      (385, 385, 1, 210), (386, 388, 2, 1), (390, 390, 1, 206), (391, 391, 1, 1),
      (393, 394, 1, 205), (395, 395, 1, 1), (398, 398, 1, 79), (399, 399, 1, 202),
      (400, 400, 1, 203), (401, 401, 1, 1), (403, 403, 1, 205), (404, 404, 1, 207),
      (406, 406, 1, 211), (407, 407, 1, 209), (408, 408, 1, 1), (412, 412, 1, 211),
      (413, 413, 1, 213), (415, 415, 1, 214), (416, 420, 2, 1), (422, 422, 1, 218),
      (423, 423, 1, 1), (425, 425, 1, 218), (428, 428, 1, 1), (430, 430, 1, 218),
      (431, 431, 1, 1), (433, 434, 1, 217), (435, 437, 2, 1), (439, 439, 1, 219),
      (440, 440, 1, 1), (444, 444, 1, 1), (452, 452, 1, 2), (453, 453, 1, 1), (455, 455, 1, 2),
      (456, 456, 1, 1), (458, 458, 1, 2), (459, 475, 2, 1), (478, 494, 2, 1), (497, 497, 1, 2),
      (498, 500, 2, 1), (502, 502, 1, - 97), (503, 503, 1, - 56), (504, 542, 2, 1),
      (544, 544, 1, - 130), (546, 562, 2, 1), (570, 570, 1, 10795), (571, 571, 1, 1),
      (573, 573, 1, - 163), (574, 574, 1, 10792), (577, 577, 1, 1), (579, 579, 1, - 195),
      (580, 580, 1, 69), (581, 581, 1, 71), (582, 590, 2, 1), (880, 882, 2, 1),
      (886, 886, 1, 1), (895, 895, 1, 116), (902, 902, 1, 38), (904, 906, 1, 37),
      (908, 908, 1, 64), (910, 911, 1, 63), (913, 929, 1, 32), (931, 939, 1, 32),
      (975, 975, 1, 8), (984, 1006, 2, 1), (1012, 1012, 1, - 60), (1015, 1015, 1, 1),
      (1017, 1017, 1, - 7), (1018, 1018, 1, 1), (1021, 1023, 1, - 130), (1024, 1039, 1, 80),
      (1040, 1071, 1, 32), (1120, 1152, 2, 1), (1162, 1214, 2, 1), (1216, 1216, 1, 15),
      (1217, 1229, 2, 1), (1232, 1326, 2, 1), (1329, 1366, 1, 48), (4256, 4293, 1, 7264),
      (4295, 4295, 1, 7264), (4301, 4301, 1, 7264), (5024, 5103, 1, 38864), (5104, 5109, 1, 8),
      (7312, 7354, 1, - 3008), (7357, 7359, 1, - 3008), (7680, 7828, 2, 1),
      (7838, 7838, 1, - 7615), (7840, 7934, 2, 1), (7944, 7951, 1, - 8), (7960, 7965, 1, - 8),
      (7976, 7983, 1, - 8), (7992, 7999, 1, - 8), (8008, 8013, 1, - 8), (8025, 8031, 2, - 8),
      (8040, 8047, 1, - 8), (8072, 8079, 1, - 8), (8088, 8095, 1, - 8), (8104, 8111, 1, - 8),
      (8120, 8121, 1, - 8), (8122, 8123, 1, - 74), (8124, 8124, 1, - 9), (8136, 8139, 1, - 86),
      (8140, 8140, 1, - 9), (8152, 8153, 1, - 8), (8154, 8155, 1, - 100), (8168, 8169, 1, - 8),
      (8170, 8171, 1, - 112), (8172, 8172, 1, - 7), (8184, 8185, 1, - 128),
      (8186, 8187, 1, - 126), (8188, 8188, 1, - 9), (8486, 8486, 1, - 7517),
      (8490, 8490, 1, - 8383), (8491, 8491, 1, - 8262), (8498, 8498, 1, 28),
      (8544, 8559, 1, 16), (8579, 8579, 1, 1), (9398, 9423, 1, 26), (11264, 11311, 1, 48),
      (11360, 11360, 1, 1), (11362, 11362, 1, - 10743), (11363, 11363, 1, - 3814),
      (11364, 11364, 1, - 10727), (11367, 11371, 2, 1), (11373, 11373, 1, - 10780),
      (11374, 11374, 1, - 10749), (11375, 11375, 1, - 10783), (11376, 11376, 1, - 10782),
      (11378, 11378, 1, 1), (11381, 11381, 1, 1), (11390, 11391, 1, - 10815),
      (11392, 11490, 2, 1), (11499, 11501, 2, 1), (11506, 11506, 1, 1), (42560, 42604, 2, 1),
      (42624, 42650, 2, 1), (42786, 42798, 2, 1), (42802, 42862, 2, 1), (42873, 42875, 2, 1),
      (42877, 42877, 1, - 35332), (42878, 42886, 2, 1), (42891, 42891, 1, 1),
      (42893, 42893, 1, - 42280), (42896, 42898, 2, 1), (42902, 42920, 2, 1),
      (42922, 42922, 1, - 42308), (42923, 42923, 1, - 42319), (42924, 42924, 1, - 42315),
      (42925, 42925, 1, - 42305), (42926, 42926, 1, - 42308), (42928, 42928, 1, - 42258),
      (42929, 42929, 1, - 42282), (42930, 42930, 1, - 42261), (42931, 42931, 1, 928),
      (42932, 42946, 2, 1), (42948, 42948, 1, - 48), (42949, 42949, 1, - 42307),
      (42950, 42950, 1, - 35384), (42951, 42953, 2, 1), (42960, 42960, 1, 1),
      (42966, 42968, 2, 1), (42997, 42997, 1, 1), (65313, 65338, 1, 32), (66560, 66599, 1, 40),
      (66736, 66771, 1, 40), (66928, 66964, 2, 39), (66929, 66938, 1, 39),
      (66941, 66954, 1, 39), (66957, 66962, 1, 39), (66965, 66965, 1, 39),
      (68736, 68786, 1, 64), (71840, 71871, 1, 32), (93760, 93791, 1, 32),
      (125184, 125217, 1, 34)]"

fun lower_lookup :: "(int \<times> int \<times> int \<times> int) list \<Rightarrow> int \<Rightarrow> int" where
  "lower_lookup [] c = c"
| "lower_lookup ((lo, hi, step, delta) # rules) c =
     (if c < lo then c
      else if c \<le> hi \<and> (c - lo) mod step = 0 then c + delta
      else lower_lookup rules c)"

definition lower_point :: "int \<Rightarrow> int" where
  "lower_point c = lower_lookup lower_rules c"

text \<open>The other two tables are the properties Cased and Case_Ignorable, as ranges of code
  points in increasing order.\<close>

fun in_ranges :: "(int \<times> int) list \<Rightarrow> int \<Rightarrow> bool" where
  "in_ranges [] c = False"
| "in_ranges ((lo, hi) # ranges) c = (if c < lo then False else c \<le> hi \<or> in_ranges ranges c)"

definition cased_ranges :: "(int \<times> int) list" where
  "cased_ranges =
     [(65, 90), (97, 122), (170, 170), (181, 181), (186, 186), (192, 214), (216, 246),
      (248, 442), (444, 447), (452, 659), (661, 696), (704, 705), (736, 740), (837, 837),
      (880, 883), (886, 887), (890, 893), (895, 895), (902, 902), (904, 906), (908, 908),
      (910, 929), (931, 1013), (1015, 1153), (1162, 1327), (1329, 1366), (1376, 1416),
      (4256, 4293), (4295, 4295), (4301, 4301), (4304, 4346), (4349, 4351), (5024, 5109),
      (5112, 5117), (7296, 7304), (7312, 7354), (7357, 7359), (7424, 7615), (7680, 7957),
      (7960, 7965), (7968, 8005), (8008, 8013), (8016, 8023), (8025, 8025), (8027, 8027),
      (8029, 8029), (8031, 8061), (8064, 8116), (8118, 8124), (8126, 8126), (8130, 8132),
      (8134, 8140), (8144, 8147), (8150, 8155), (8160, 8172), (8178, 8180), (8182, 8188),
      (8305, 8305), (8319, 8319), (8336, 8348), (8450, 8450), (8455, 8455), (8458, 8467),
      (8469, 8469), (8473, 8477), (8484, 8484), (8486, 8486), (8488, 8488), (8490, 8493),
      (8495, 8500), (8505, 8505), (8508, 8511), (8517, 8521), (8526, 8526), (8544, 8575),
      (8579, 8580), (9398, 9449), (11264, 11492), (11499, 11502), (11506, 11507),
      (11520, 11557), (11559, 11559), (11565, 11565), (42560, 42605), (42624, 42653),
      (42786, 42887), (42891, 42894), (42896, 42954), (42960, 42961), (42963, 42963),
      (42965, 42969), (42997, 42998), (43000, 43002), (43824, 43866), (43868, 43880),
      (43888, 43967), (64256, 64262), (64275, 64279), (65313, 65338), (65345, 65370),
      (66560, 66639), (66736, 66771), (66776, 66811), (66928, 66938), (66940, 66954),
      (66956, 66962), (66964, 66965), (66967, 66977), (66979, 66993), (66995, 67001),
      (67003, 67004), (67456, 67456), (67459, 67461), (67463, 67504), (67506, 67514),
      (68736, 68786), (68800, 68850), (71840, 71903), (93760, 93823), (119808, 119892),
      (119894, 119964), (119966, 119967), (119970, 119970), (119973, 119974), (119977, 119980),
      (119982, 119993), (119995, 119995), (119997, 120003), (120005, 120069), (120071, 120074),
      (120077, 120084), (120086, 120092), (120094, 120121), (120123, 120126), (120128, 120132),
      (120134, 120134), (120138, 120144), (120146, 120485), (120488, 120512), (120514, 120538),
      (120540, 120570), (120572, 120596), (120598, 120628), (120630, 120654), (120656, 120686),
      (120688, 120712), (120714, 120744), (120746, 120770), (120772, 120779), (122624, 122633),
      (122635, 122654), (125184, 125251), (127280, 127305), (127312, 127337), (127344, 127369)]"

definition case_ignorable_ranges :: "(int \<times> int) list" where
  "case_ignorable_ranges =
     [(39, 39), (46, 46), (58, 58), (94, 94), (96, 96), (168, 168), (173, 173), (175, 175),
      (180, 180), (183, 184), (688, 879), (884, 885), (890, 890), (900, 901), (903, 903),
      (1155, 1161), (1369, 1369), (1375, 1375), (1425, 1469), (1471, 1471), (1473, 1474),
      (1476, 1477), (1479, 1479), (1524, 1524), (1536, 1541), (1552, 1562), (1564, 1564),
      (1600, 1600), (1611, 1631), (1648, 1648), (1750, 1757), (1759, 1768), (1770, 1773),
      (1807, 1807), (1809, 1809), (1840, 1866), (1958, 1968), (2027, 2037), (2042, 2042),
      (2045, 2045), (2070, 2093), (2137, 2139), (2184, 2184), (2192, 2193), (2200, 2207),
      (2249, 2306), (2362, 2362), (2364, 2364), (2369, 2376), (2381, 2381), (2385, 2391),
      (2402, 2403), (2417, 2417), (2433, 2433), (2492, 2492), (2497, 2500), (2509, 2509),
      (2530, 2531), (2558, 2558), (2561, 2562), (2620, 2620), (2625, 2626), (2631, 2632),
      (2635, 2637), (2641, 2641), (2672, 2673), (2677, 2677), (2689, 2690), (2748, 2748),
      (2753, 2757), (2759, 2760), (2765, 2765), (2786, 2787), (2810, 2815), (2817, 2817),
      (2876, 2876), (2879, 2879), (2881, 2884), (2893, 2893), (2901, 2902), (2914, 2915),
      (2946, 2946), (3008, 3008), (3021, 3021), (3072, 3072), (3076, 3076), (3132, 3132),
      (3134, 3136), (3142, 3144), (3146, 3149), (3157, 3158), (3170, 3171), (3201, 3201),
      (3260, 3260), (3263, 3263), (3270, 3270), (3276, 3277), (3298, 3299), (3328, 3329),
      (3387, 3388), (3393, 3396), (3405, 3405), (3426, 3427), (3457, 3457), (3530, 3530),
      (3538, 3540), (3542, 3542), (3633, 3633), (3636, 3642), (3654, 3662), (3761, 3761),
      (3764, 3772), (3782, 3782), (3784, 3789), (3864, 3865), (3893, 3893), (3895, 3895),
      (3897, 3897), (3953, 3966), (3968, 3972), (3974, 3975), (3981, 3991), (3993, 4028),
      (4038, 4038), (4141, 4144), (4146, 4151), (4153, 4154), (4157, 4158), (4184, 4185),
      (4190, 4192), (4209, 4212), (4226, 4226), (4229, 4230), (4237, 4237), (4253, 4253),
      (4348, 4348), (4957, 4959), (5906, 5908), (5938, 5939), (5970, 5971), (6002, 6003),
      (6068, 6069), (6071, 6077), (6086, 6086), (6089, 6099), (6103, 6103), (6109, 6109),
      (6155, 6159), (6211, 6211), (6277, 6278), (6313, 6313), (6432, 6434), (6439, 6440),
      (6450, 6450), (6457, 6459), (6679, 6680), (6683, 6683), (6742, 6742), (6744, 6750),
      (6752, 6752), (6754, 6754), (6757, 6764), (6771, 6780), (6783, 6783), (6823, 6823),
      (6832, 6862), (6912, 6915), (6964, 6964), (6966, 6970), (6972, 6972), (6978, 6978),
      (7019, 7027), (7040, 7041), (7074, 7077), (7080, 7081), (7083, 7085), (7142, 7142),
      (7144, 7145), (7149, 7149), (7151, 7153), (7212, 7219), (7222, 7223), (7288, 7293),
      (7376, 7378), (7380, 7392), (7394, 7400), (7405, 7405), (7412, 7412), (7416, 7417),
      (7468, 7530), (7544, 7544), (7579, 7679), (8125, 8125), (8127, 8129), (8141, 8143),
      (8157, 8159), (8173, 8175), (8189, 8190), (8203, 8207), (8216, 8217), (8228, 8228),
      (8231, 8231), (8234, 8238), (8288, 8292), (8294, 8303), (8305, 8305), (8319, 8319),
      (8336, 8348), (8400, 8432), (11388, 11389), (11503, 11505), (11631, 11631),
      (11647, 11647), (11744, 11775), (11823, 11823), (12293, 12293), (12330, 12333),
      (12337, 12341), (12347, 12347), (12441, 12446), (12540, 12542), (40981, 40981),
      (42232, 42237), (42508, 42508), (42607, 42610), (42612, 42621), (42623, 42623),
      (42652, 42655), (42736, 42737), (42752, 42785), (42864, 42864), (42888, 42890),
      (42994, 42996), (43000, 43001), (43010, 43010), (43014, 43014), (43019, 43019),
      (43045, 43046), (43052, 43052), (43204, 43205), (43232, 43249), (43263, 43263),
      (43302, 43309), (43335, 43345), (43392, 43394), (43443, 43443), (43446, 43449),
      (43452, 43453), (43471, 43471), (43493, 43494), (43561, 43566), (43569, 43570),
      (43573, 43574), (43587, 43587), (43596, 43596), (43632, 43632), (43644, 43644),
      (43696, 43696), (43698, 43700), (43703, 43704), (43710, 43711), (43713, 43713),
      (43741, 43741), (43756, 43757), (43763, 43764), (43766, 43766), (43867, 43871),
      (43881, 43883), (44005, 44005), (44008, 44008), (44013, 44013), (64286, 64286),
      (64434, 64450), (65024, 65039), (65043, 65043), (65056, 65071), (65106, 65106),
      (65109, 65109), (65279, 65279), (65287, 65287), (65294, 65294), (65306, 65306),
      (65342, 65342), (65344, 65344), (65392, 65392), (65438, 65439), (65507, 65507),
      (65529, 65531), (66045, 66045), (66272, 66272), (66422, 66426), (67456, 67461),
      (67463, 67504), (67506, 67514), (68097, 68099), (68101, 68102), (68108, 68111),
      (68152, 68154), (68159, 68159), (68325, 68326), (68900, 68903), (69291, 69292),
      (69446, 69456), (69506, 69509), (69633, 69633), (69688, 69702), (69744, 69744),
      (69747, 69748), (69759, 69761), (69811, 69814), (69817, 69818), (69821, 69821),
      (69826, 69826), (69837, 69837), (69888, 69890), (69927, 69931), (69933, 69940),
      (70003, 70003), (70016, 70017), (70070, 70078), (70089, 70092), (70095, 70095),
      (70191, 70193), (70196, 70196), (70198, 70199), (70206, 70206), (70367, 70367),
      (70371, 70378), (70400, 70401), (70459, 70460), (70464, 70464), (70502, 70508),
      (70512, 70516), (70712, 70719), (70722, 70724), (70726, 70726), (70750, 70750),
      (70835, 70840), (70842, 70842), (70847, 70848), (70850, 70851), (71090, 71093),
      (71100, 71101), (71103, 71104), (71132, 71133), (71219, 71226), (71229, 71229),
      (71231, 71232), (71339, 71339), (71341, 71341), (71344, 71349), (71351, 71351),
      (71453, 71455), (71458, 71461), (71463, 71467), (71727, 71735), (71737, 71738),
      (71995, 71996), (71998, 71998), (72003, 72003), (72148, 72151), (72154, 72155),
      (72160, 72160), (72193, 72202), (72243, 72248), (72251, 72254), (72263, 72263),
      (72273, 72278), (72281, 72283), (72330, 72342), (72344, 72345), (72752, 72758),
      (72760, 72765), (72767, 72767), (72850, 72871), (72874, 72880), (72882, 72883),
      (72885, 72886), (73009, 73014), (73018, 73018), (73020, 73021), (73023, 73029),
      (73031, 73031), (73104, 73105), (73109, 73109), (73111, 73111), (73459, 73460),
      (78896, 78904), (92912, 92916), (92976, 92982), (92992, 92995), (94031, 94031),
      (94095, 94111), (94176, 94177), (94179, 94180), (110576, 110579), (110581, 110587),
      (110589, 110590), (113821, 113822), (113824, 113827), (118528, 118573), (118576, 118598),
      (119143, 119145), (119155, 119170), (119173, 119179), (119210, 119213), (119362, 119364),
      (121344, 121398), (121403, 121452), (121461, 121461), (121476, 121476), (121499, 121503),
      (121505, 121519), (122880, 122886), (122888, 122904), (122907, 122913), (122915, 122916),
      (122918, 122922), (123184, 123197), (123566, 123566), (123628, 123631), (125136, 125142),
      (125252, 125259), (127995, 127999), (917505, 917505), (917536, 917631), (917760, 917999)]"

definition is_cased :: "int \<Rightarrow> bool" where
  "is_cased c = in_ranges cased_ranges c"

definition is_case_ignorable :: "int \<Rightarrow> bool" where
  "is_case_ignorable c = in_ranges case_ignorable_ranges c"

section \<open>Strings\<close>

text \<open>
  A JavaScript string is a sequence of UTF-16 code units.  A code unit is modelled by its
  number (an integer), so that the characters the scraper names outside Latin-1 (the delimiter U+203A
  and the bullet U+2022) are ordinary elements.  Literals are written \<open>js ''...''\<close>.
\<close>

type_synonym jstr = "int list"

definition js :: "string \<Rightarrow> jstr" where
  "js s = map of_char s"

text \<open>The class \<open>\s\<close> of a regular expression, which is also what \<open>trim\<close> strips:
  WhiteSpace and LineTerminator of ECMA-262.\<close>

definition is_ws :: "int \<Rightarrow> bool" where
  "is_ws c \<longleftrightarrow> (9 \<le> c \<and> c \<le> 13) \<or> c = 32 \<or> c = 160 \<or> c = 5760
      \<or> (8192 \<le> c \<and> c \<le> 8202) \<or> c = 8232 \<or> c = 8233 \<or> c = 8239 \<or> c = 8287
      \<or> c = 12288 \<or> c = 65279"

definition is_digit :: "int \<Rightarrow> bool" where
  "is_digit c \<longleftrightarrow> 48 \<le> c \<and> c \<le> 57"

definition is_upper :: "int \<Rightarrow> bool" where
  "is_upper c \<longleftrightarrow> 65 \<le> c \<and> c \<le> 90"

definition is_lower :: "int \<Rightarrow> bool" where
  "is_lower c \<longleftrightarrow> 97 \<le> c \<and> c \<le> 122"

definition is_alpha :: "int \<Rightarrow> bool" where
  "is_alpha c \<longleftrightarrow> is_upper c \<or> is_lower c"

text \<open>The class \<open>\w\<close>, which decides the assertion \<open>\b\<close>.\<close>

definition is_word :: "int \<Rightarrow> bool" where
  "is_word c \<longleftrightarrow> is_alpha c \<or> is_digit c \<or> c = 95"

text \<open>
  The code points of a string: a high surrogate followed by a low surrogate is one code
  point above U+FFFF, every other code unit is a code point of its own.  \<open>codeUnits\<close> is
  the way back.
\<close>

definition is_high_surrogate :: "int \<Rightarrow> bool" where
  "is_high_surrogate c \<longleftrightarrow> 55296 \<le> c \<and> c \<le> 56319"

definition is_low_surrogate :: "int \<Rightarrow> bool" where
  "is_low_surrogate c \<longleftrightarrow> 56320 \<le> c \<and> c \<le> 57343"

fun codePoints :: "jstr \<Rightarrow> int list" where
  "codePoints (h # l # cs) =
     (if is_high_surrogate h \<and> is_low_surrogate l
      then (65536 + (h - 55296) * 1024 + (l - 56320)) # codePoints cs
      else h # codePoints (l # cs))"
| "codePoints cs = cs"

definition codeUnits :: "int \<Rightarrow> jstr" where
  "codeUnits p =
     (if p < 65536 then [p] else [55296 + (p - 65536) div 1024, 56320 + (p - 65536) mod 1024])"

text \<open>
  \<open>String.prototype.toLowerCase\<close>.  Every code point is replaced by its lower-case
  mapping, with the two exceptions of the Unicode Standard that do not depend on a
  language: U+0130 becomes the two code points U+0069 U+0307, and U+03A3, capital sigma,
  becomes the final sigma U+03C2 instead of U+03C3 where it ends a word.  It ends a word
  when a cased letter comes before it and none comes after it, code points that are
  case-ignorable being skipped on both sides.  \<open>left\<close> holds the code points before
  the position, the nearest first.
\<close>

definition cased_next :: "int list \<Rightarrow> bool" where
  "cased_next ps = (case dropWhile is_case_ignorable ps of [] \<Rightarrow> False | p # _ \<Rightarrow> is_cased p)"

definition final_sigma :: "int list \<Rightarrow> int list \<Rightarrow> bool" where
  "final_sigma left right \<longleftrightarrow> cased_next left \<and> \<not> cased_next right"

fun lower_points :: "int list \<Rightarrow> int list \<Rightarrow> int list" where
  "lower_points left [] = []"
| "lower_points left (p # ps) =
     (if p = 931 then [if final_sigma left ps then 962 else 963]
      else if p = 304 then [105, 775]
      else [lower_point p]) @ lower_points (p # left) ps"

definition toLowerCase :: "jstr \<Rightarrow> jstr" where
  "toLowerCase s = concat (map codeUnits (lower_points [] (codePoints s)))"

definition trimStart :: "jstr \<Rightarrow> jstr" where
  "trimStart s = dropWhile is_ws s"

definition trimEnd :: "jstr \<Rightarrow> jstr" where
  "trimEnd s = rev (dropWhile is_ws (rev s))"

definition trim :: "jstr \<Rightarrow> jstr" where
  "trim s = trimEnd (trimStart s)"

text \<open>\<open>s.replace(/\s+/g, " ")\<close>: every maximal run of white space becomes one space.\<close>

function collapse_ws :: "jstr \<Rightarrow> jstr" where
  "collapse_ws [] = []"
| "collapse_ws (c # cs) =
     (if is_ws c then 32 # collapse_ws (dropWhile is_ws cs) else c # collapse_ws cs)"
  by pat_completeness auto
termination
  by (relation "measure length") (auto simp: length_dropWhile_le less_Suc_eq_le)

text \<open>\<open>s.startsWith(p)\<close> and \<open>s.includes(p)\<close>.\<close>

fun startsWith :: "jstr \<Rightarrow> jstr \<Rightarrow> bool" where
  "startsWith s [] = True"
| "startsWith [] (p # ps) = False"
| "startsWith (c # cs) (p # ps) = (c = p \<and> startsWith cs ps)"

fun str_includes :: "jstr \<Rightarrow> jstr \<Rightarrow> bool" where
  "str_includes [] p = (p = [])"
| "str_includes (c # cs) p = (startsWith (c # cs) p \<or> str_includes cs p)"

definition endsWith :: "jstr \<Rightarrow> jstr \<Rightarrow> bool" where
  "endsWith s p = startsWith (rev s) (rev p)"

section \<open>Regular expressions\<close>

text \<open>
  A regular expression is modelled by the list of all the ways in which it matches at the
  start of a string, in the order in which the backtracking matcher of ECMA-262 tries them:
  the preferred way first.  A way is the value of the match (what its groups capture) and
  the rest of the string.  The expression matches where the list is not empty, and its
  match is the head of the list.
\<close>

type_synonym 'a rx = "jstr \<Rightarrow> ('a \<times> jstr) list"

definition rx_ret :: "'a \<Rightarrow> 'a rx" where
  "rx_ret a s = [(a, s)]"

text \<open>Concatenation: for every way of the first, in order, every way of the second.\<close>

definition rx_then :: "'a rx \<Rightarrow> ('a \<Rightarrow> 'b rx) \<Rightarrow> 'b rx" where
  "rx_then p f s = concat (map (\<lambda>(a, r). f a r) (p s))"

text \<open>The alternation \<open>p|q\<close>.\<close>

definition rx_or :: "'a rx \<Rightarrow> 'a rx \<Rightarrow> 'a rx" where
  "rx_or p q s = p s @ q s"

text \<open>The greedy \<open>(?:p)?\<close>.\<close>

definition rx_opt :: "'a rx \<Rightarrow> 'a option rx" where
  "rx_opt p = rx_or (rx_then p (\<lambda>a. rx_ret (Some a))) (rx_ret None)"

text \<open>The assertion \<open>$\<close> (no flag \<open>m\<close>).\<close>

definition rx_end :: "unit rx" where
  "rx_end s = (if s = [] then [((), s)] else [])"

text \<open>A literal, as it is.\<close>

definition rx_lit :: "jstr \<Rightarrow> jstr rx" where
  "rx_lit l s = (if startsWith s l then [(take (length l) s, drop (length l) s)] else [])"

text \<open>
  With the flag \<open>i\<close> two code units match when \<open>Canonicalize\<close> maps them to the same one.
  Every literal of the scraper is ASCII, and \<open>Canonicalize\<close> never maps a code unit
  outside ASCII into ASCII, so it is modelled on ASCII and is the identity elsewhere.
\<close>

definition canonicalize :: "int \<Rightarrow> int" where
  "canonicalize c = (if is_lower c then c - 32 else c)"

fun startsWith_i :: "jstr \<Rightarrow> jstr \<Rightarrow> bool" where
  "startsWith_i s [] = True"
| "startsWith_i [] (p # ps) = False"
| "startsWith_i (c # cs) (p # ps) = (canonicalize c = canonicalize p \<and> startsWith_i cs ps)"

definition rx_lit_i :: "jstr \<Rightarrow> jstr rx" where
  "rx_lit_i l s = (if startsWith_i s l then [(take (length l) s, drop (length l) s)] else [])"

text \<open>
  A quantified character class, \<open>[...]{lo,hi}\<close>: the greedy one tries the longest run
  first, the lazy one (\<open>{lo,hi}?\<close>) the shortest.  No upper bound is \<open>None\<close>.
\<close>

definition run_top :: "(int \<Rightarrow> bool) \<Rightarrow> nat option \<Rightarrow> jstr \<Rightarrow> nat" where
  "run_top P hi s =
     (let m = length (takeWhile P s) in case hi of None \<Rightarrow> m | Some h \<Rightarrow> min h m)"

definition rx_greedy :: "(int \<Rightarrow> bool) \<Rightarrow> nat \<Rightarrow> nat option \<Rightarrow> jstr rx" where
  "rx_greedy P lo hi s = map (\<lambda>n. (take n s, drop n s)) (rev [lo ..< Suc (run_top P hi s)])"

definition rx_lazy :: "(int \<Rightarrow> bool) \<Rightarrow> nat \<Rightarrow> nat option \<Rightarrow> jstr rx" where
  "rx_lazy P lo hi s = map (\<lambda>n. (take n s, drop n s)) [lo ..< Suc (run_top P hi s)]"

text \<open>The class \<open>.\<close>: any code unit but a line terminator.\<close>

definition is_dot :: "int \<Rightarrow> bool" where
  "is_dot c \<longleftrightarrow> c \<noteq> 10 \<and> c \<noteq> 13 \<and> c \<noteq> 8232 \<and> c \<noteq> 8233"

text \<open>The assertion \<open>\b\<close> between the code unit before the position (\<open>None\<close> at the start
  of the string) and the rest of the string.\<close>

definition word_before :: "int option \<Rightarrow> bool" where
  "word_before prev = (case prev of None \<Rightarrow> False | Some c \<Rightarrow> is_word c)"

definition word_next :: "jstr \<Rightarrow> bool" where
  "word_next s = (case s of [] \<Rightarrow> False | c # _ \<Rightarrow> is_word c)"

definition rx_wb :: "int option \<Rightarrow> unit rx" where
  "rx_wb prev s = (if word_before prev \<noteq> word_next s then [((), s)] else [])"

text \<open>The match of an expression anchored by \<open>^\<close>: only the start of the string is tried.\<close>

definition rx_first :: "'a rx \<Rightarrow> jstr \<Rightarrow> 'a option" where
  "rx_first p s = (case p s of [] \<Rightarrow> None | (a, r) # _ \<Rightarrow> Some a)"

text \<open>The match of an expression that is not anchored (\<open>str.match(rx)\<close>, \<open>rx.test(str)\<close>,
  no flag \<open>g\<close>): the first position of the string, from the left, where it matches.  The
  expression is given the code unit before the position, for a leading \<open>\b\<close>.\<close>

fun rx_search :: "(int option \<Rightarrow> 'a rx) \<Rightarrow> int option \<Rightarrow> jstr \<Rightarrow> 'a option" where
  "rx_search p prev [] = rx_first (p prev) []"
| "rx_search p prev (c # cs) =
     (case rx_first (p prev) (c # cs) of Some a \<Rightarrow> Some a | None \<Rightarrow> rx_search p (Some c) cs)"

definition rx_match :: "(int option \<Rightarrow> 'a rx) \<Rightarrow> jstr \<Rightarrow> 'a option" where
  "rx_match p s = rx_search p None s"

section \<open>Numbers and their decimal strings\<close>

text \<open>\<open>Number(s)\<close> for a string of decimal digits.\<close>

definition Number :: "jstr \<Rightarrow> int" where
  "Number s = foldl (\<lambda>n c. 10 * n + (c - 48)) 0 s"

text \<open>\<open>String(n)\<close> for an integer: the decimal digits, after a minus sign if it is negative.\<close>

function String_digits :: "int \<Rightarrow> jstr" where
  "String_digits n =
     (if n < 10 then [48 + n] else String_digits (n div 10) @ [48 + n mod 10])"
  by pat_completeness auto
termination
  by (relation "measure nat") auto

declare String_digits.simps [simp del]

definition String_int :: "int \<Rightarrow> jstr" where
  "String_int i = (if i < 0 then 45 # String_digits (- i) else String_digits i)"

text \<open>\<open>s.padStart(2, "0")\<close>.\<close>

definition padStart2 :: "jstr \<Rightarrow> jstr" where
  "padStart2 s = replicate (2 - length s) 48 @ s"

section \<open>Dates\<close>

text \<open>
  A \<open>Date\<close> object holds a time value: milliseconds since 1970-01-01T00:00:00Z.  The
  functions below are those of ECMA-262, section "Date Objects", on the day number
  \<open>Day(t) = floor(t / msPerDay)\<close>.  Every date the scraper builds is a midnight, built by
  \<open>Date.UTC\<close> from a year of at most four digits and a month and a day of at most two, so
  the time value is far inside the range that \<open>TimeClip\<close> keeps and no \<open>Date\<close> is invalid.
\<close>

datatype Date = Date (getTime: int)

definition msPerDay :: int where
  "msPerDay = 86400000"

definition DayFromYear :: "int \<Rightarrow> int" where
  "DayFromYear y = 365 * (y - 1970) + (y - 1969) div 4 - (y - 1901) div 100 + (y - 1601) div 400"

definition DaysInYear :: "int \<Rightarrow> int" where
  "DaysInYear y =
     (if y mod 4 \<noteq> 0 then 365 else if y mod 100 \<noteq> 0 then 366
      else if y mod 400 \<noteq> 0 then 365 else 366)"

lemma div_succ:
  fixes a k :: int
  assumes "0 < k"
  shows "(a + 1) div k = a div k + (if (a + 1) mod k = 0 then 1 else 0)"
proof (cases "a mod k = k - 1")
  case True
  have "k * (a div k) + a mod k = a" by simp
  with True have "a + 1 = k * (a div k) + k" by linarith
  then have "a + 1 = k * (a div k + 1) + 0" by (simp add: algebra_simps)
  then have "(a + 1) div k = a div k + 1" "(a + 1) mod k = 0"
    using assms by (metis add.right_neutral nonzero_mult_div_cancel_left less_irrefl,
      metis add.right_neutral mod_mult_self1_is_0)
  then show ?thesis by simp
next
  case False
  have r: "0 < a mod k + 1" "0 \<le> a mod k + 1" "a mod k + 1 < k"
    using False pos_mod_bound [OF assms, of a] pos_mod_sign [OF assms, of a] by auto
  have "a + 1 = k * (a div k) + (a mod k + 1)"
    using mult_div_mod_eq [of k a] by simp
  then have e: "(a + 1) div k = a div k" "(a + 1) mod k = a mod k + 1"
    using r by (metis int_div_pos_eq, metis int_mod_pos_eq)
  have "(a + 1) mod k \<noteq> 0" using e(2) r(1) by linarith
  then show ?thesis using e(1) by simp
qed

lemma mod_shift:
  fixes y :: int
  shows "(y - k * c) mod k = y mod k"
proof -
  have "y - k * c = y + k * (- c)" by simp
  then show ?thesis by (metis mod_mult_self2)
qed

lemma DayFromYear_step: "DayFromYear (y + 1) = DayFromYear y + DaysInYear y"
proof -
  have a: "(y + 1 - 1969) div 4 = (y - 1969) div 4 + (if y mod 4 = 0 then 1 else 0)"
  proof -
    have "(y - 1969 + 1) mod 4 = (y - 4 * 492) mod 4" by simp
    then have "(y - 1969 + 1) mod 4 = y mod 4" by (simp only: mod_shift)
    then show ?thesis using div_succ [of 4 "y - 1969"] by (simp add: algebra_simps)
  qed
  have b: "(y + 1 - 1901) div 100 = (y - 1901) div 100 + (if y mod 100 = 0 then 1 else 0)"
  proof -
    have "(y - 1901 + 1) mod 100 = (y - 100 * 19) mod 100" by simp
    then have "(y - 1901 + 1) mod 100 = y mod 100" by (simp only: mod_shift)
    then show ?thesis using div_succ [of 100 "y - 1901"] by (simp add: algebra_simps)
  qed
  have c: "(y + 1 - 1601) div 400 = (y - 1601) div 400 + (if y mod 400 = 0 then 1 else 0)"
  proof -
    have "(y - 1601 + 1) mod 400 = (y - 400 * 4) mod 400" by simp
    then have "(y - 1601 + 1) mod 400 = y mod 400" by (simp only: mod_shift)
    then show ?thesis using div_succ [of 400 "y - 1601"] by (simp add: algebra_simps)
  qed
  have d: "y mod 400 = 0 \<Longrightarrow> y mod 100 = 0" "y mod 100 = 0 \<Longrightarrow> y mod 4 = 0"
    using dvd_trans [of 100 400 y] dvd_trans [of 4 100 y]
    by (simp_all add: mod_eq_0_iff_dvd)
  have e: "DayFromYear (y + 1) - DayFromYear y =
      365 + (if y mod 4 = 0 then 1 else 0) - (if y mod 100 = 0 then 1 else 0)
        + (if y mod 400 = 0 then 1 else 0)"
    unfolding DayFromYear_def a b c by (simp only: algebra_simps)
  show ?thesis
  proof (cases "y mod 4 = 0")
    case False
    with d have "y mod 100 \<noteq> 0" "y mod 400 \<noteq> 0" by auto
    with False e show ?thesis by (simp add: DaysInYear_def)
  next
    case m4: True
    show ?thesis
    proof (cases "y mod 100 = 0")
      case False
      with d have "y mod 400 \<noteq> 0" by auto
      with False m4 e show ?thesis by (simp add: DaysInYear_def)
    next
      case True
      with m4 e show ?thesis by (cases "y mod 400 = 0") (simp_all add: DaysInYear_def)
    qed
  qed
qed

lemma DaysInYear_cases: "DaysInYear y = 365 \<or> DaysInYear y = 366"
  by (simp add: DaysInYear_def)

lemma DayFromYear_less: "DayFromYear (y - 1) < DayFromYear y"
  using DayFromYear_step [of "y - 1"] DaysInYear_cases [of "y - 1"] by auto

text \<open>
  \<open>YearFromTime(t)\<close> is "the largest integer \<open>y\<close> such that \<open>TimeFromYear(y) \<le> t\<close>".  It is
  computed by a search downwards from a year that is not too small: a year has at least
  365 days after 1970 and at most 366 before.
\<close>

function year_down :: "int \<Rightarrow> int \<Rightarrow> int" where
  "year_down y d = (if DayFromYear y \<le> d then y else year_down (y - 1) d)"
  by pat_completeness auto
termination
  by (relation "measure (\<lambda>(y, d). nat (DayFromYear y - d))")
     (use DayFromYear_less in \<open>auto simp: nat_less_iff\<close>)

declare year_down.simps [simp del]

definition YearFromDay :: "int \<Rightarrow> int" where
  "YearFromDay d = year_down (1970 + (if 0 \<le> d then d div 365 else d div 366)) d"

definition InLeapYear :: "int \<Rightarrow> bool" where
  "InLeapYear y \<longleftrightarrow> DaysInYear y = 366"

text \<open>The day within the year on which month \<open>m\<close> (0 to 11) starts.\<close>

definition month_start :: "bool \<Rightarrow> int \<Rightarrow> int" where
  "month_start leap m =
     (let l = (if leap then 1 else 0) in
      if m = 0 then 0 else if m = 1 then 31 else if m = 2 then 59 + l
      else if m = 3 then 90 + l else if m = 4 then 120 + l else if m = 5 then 151 + l
      else if m = 6 then 181 + l else if m = 7 then 212 + l else if m = 8 then 243 + l
      else if m = 9 then 273 + l else if m = 10 then 304 + l else 334 + l)"

text \<open>\<open>MonthFromTime\<close>, from the day within the year.\<close>

definition month_of_day :: "bool \<Rightarrow> int \<Rightarrow> int" where
  "month_of_day leap w =
     (let l = (if leap then 1 else 0) in
      if w < 31 then 0 else if w < 59 + l then 1 else if w < 90 + l then 2
      else if w < 120 + l then 3 else if w < 151 + l then 4 else if w < 181 + l then 5
      else if w < 212 + l then 6 else if w < 243 + l then 7 else if w < 273 + l then 8
      else if w < 304 + l then 9 else if w < 334 + l then 10 else 11)"

definition DayWithinYear :: "int \<Rightarrow> int" where
  "DayWithinYear d = d - DayFromYear (YearFromDay d)"

definition MonthFromDay :: "int \<Rightarrow> int" where
  "MonthFromDay d = month_of_day (InLeapYear (YearFromDay d)) (DayWithinYear d)"

definition DateFromDay :: "int \<Rightarrow> int" where
  "DateFromDay d =
     DayWithinYear d - month_start (InLeapYear (YearFromDay d)) (MonthFromDay d) + 1"

text \<open>\<open>MakeDay(year, month, date)\<close>: the month may be any integer, it carries into the year;
  the date may be any integer, it is added as days.\<close>

definition MakeDay :: "int \<Rightarrow> int \<Rightarrow> int \<Rightarrow> int" where
  "MakeDay year month date =
     (let ym = year + month div 12; mn = month mod 12
      in DayFromYear ym + month_start (InLeapYear ym) mn + date - 1)"

text \<open>\<open>new Date(Date.UTC(year, month, date))\<close>.  A year from 0 to 99 means 1900 + year.\<close>

definition Date_UTC :: "int \<Rightarrow> int \<Rightarrow> int \<Rightarrow> Date" where
  "Date_UTC year month date =
     (let yr = (if 0 \<le> year \<and> year \<le> 99 then 1900 + year else year)
      in Date (MakeDay yr month date * msPerDay))"

definition getUTCFullYear :: "Date \<Rightarrow> int" where
  "getUTCFullYear d = YearFromDay (getTime d div msPerDay)"

definition getUTCMonth :: "Date \<Rightarrow> int" where
  "getUTCMonth d = MonthFromDay (getTime d div msPerDay)"

definition getUTCDate :: "Date \<Rightarrow> int" where
  "getUTCDate d = DateFromDay (getTime d div msPerDay)"

text \<open>The test the three date parsers share: the date built from the parts reads back as
  the same parts.  \<open>month\<close> is the zero-based month passed to \<open>Date.UTC\<close>.\<close>

definition reads_back :: "Date \<Rightarrow> int \<Rightarrow> int \<Rightarrow> int \<Rightarrow> bool" where
  "reads_back d year month day \<longleftrightarrow>
     getUTCFullYear d = year \<and> getUTCMonth d = month \<and> getUTCDate d = day"

text \<open>
  The Gregorian calendar, for the statements about dates: a date is valid when its month
  is from 1 to 12 and its day from 1 to the length of that month in that year.
\<close>

definition is_leap_year :: "int \<Rightarrow> bool" where
  "is_leap_year y \<longleftrightarrow> y mod 4 = 0 \<and> (y mod 100 \<noteq> 0 \<or> y mod 400 = 0)"

definition days_in_month :: "int \<Rightarrow> int \<Rightarrow> int" where
  "days_in_month y m =
     (if m = 2 then (if is_leap_year y then 29 else 28)
      else if m = 4 \<or> m = 6 \<or> m = 9 \<or> m = 11 then 30 else 31)"

definition valid_date :: "int \<Rightarrow> int \<Rightarrow> int \<Rightarrow> bool" where
  "valid_date y m d \<longleftrightarrow> 1 \<le> m \<and> m \<le> 12 \<and> 1 \<le> d \<and> d \<le> days_in_month y m"

section \<open>The configuration's dates\<close>

datatype error =
  INVALID_DATE_FORMAT | INVALID_INPUT_LINE | MISSING_REQUIRED_KEYS | INVALID_NUMERIC_VALUE
  | VALUE_OUT_OF_RANGE | INVALID_LABELS_LINE | TypeError

text \<open>\<open>/^(\d{2})\.(\d{2})\.(\d{4})$/\<close>\<close>

definition rx_pl_date :: "(jstr \<times> jstr \<times> jstr) rx" where
  "rx_pl_date =
     rx_then (rx_greedy is_digit 2 (Some 2)) (\<lambda>d.
     rx_then (rx_lit (js ''.'')) (\<lambda>_.
     rx_then (rx_greedy is_digit 2 (Some 2)) (\<lambda>m.
     rx_then (rx_lit (js ''.'')) (\<lambda>_.
     rx_then (rx_greedy is_digit 4 (Some 4)) (\<lambda>y.
     rx_then rx_end (\<lambda>_. rx_ret (d, m, y)))))))"

definition parsePlDate :: "jstr \<Rightarrow> error + Date" where
  "parsePlDate text =
     (let val = trim text in
      case rx_first rx_pl_date val of
        None \<Rightarrow> Inl INVALID_DATE_FORMAT
      | Some (d, m, y) \<Rightarrow>
          let day = Number d; month = Number m; year = Number y;
              dt = Date_UTC year (month - 1) day
          in if getUTCFullYear dt \<noteq> year \<or> getUTCMonth dt \<noteq> month - 1 \<or> getUTCDate dt \<noteq> day
             then Inl INVALID_DATE_FORMAT else Inr dt)"

definition formatPlDate :: "Date \<Rightarrow> jstr" where
  "formatPlDate dateValue =
     (let day = padStart2 (String_int (getUTCDate dateValue));
          month = padStart2 (String_int (getUTCMonth dateValue + 1));
          year = String_int (getUTCFullYear dateValue)
      in day @ js ''.'' @ month @ js ''.'' @ year)"

section \<open>The run's records\<close>

record Stats =
  labelsTotal :: nat
  labelsProcessed :: nat
  candidatesTotal :: nat
  albumsFetched :: nat
  accepted :: nat
  rejectedByGenre :: nat
  rejectedByLength :: nat
  rejectedByDateMismatch :: nat
  missingAlbumDate :: nat
  duplicatesRemoved :: nat
  httpErrors :: nat
  parseErrors :: nat

definition stats0 :: Stats where
  "stats0 = \<lparr> labelsTotal = 0, labelsProcessed = 0, candidatesTotal = 0, albumsFetched = 0,
      accepted = 0, rejectedByGenre = 0, rejectedByLength = 0, rejectedByDateMismatch = 0,
      missingAlbumDate = 0, duplicatesRemoved = 0, httpErrors = 0, parseErrors = 0 \<rparr>"

text \<open>
  The configuration, after \<open>parseInputConfig\<close>.  The keys that only parametrise the HTTP
  client and the rate limiters (\<open>delay_listing\<close>, \<open>delay_album\<close>, \<open>timeout_ms\<close>,
  \<open>accept_language\<close>, \<open>user_agent\<close>) and \<open>labels_file\<close> are left out.
\<close>

record Config =
  date_from :: Date
  date_to :: Date
  min_minutes :: int
  max_pages_per_label :: nat
  retries :: nat
  genre_root :: jstr

text \<open>A label of the labels file: \<open>{ name, url }\<close>.\<close>

record Label =
  lname :: jstr
  lurl :: jstr

text \<open>The candidate pushed by \<open>extractAlbumCandidatesFromListing\<close>.\<close>

record Candidate =
  cand_album_url :: jstr
  label_name :: jstr
  release_date_listing :: Date

text \<open>The object returned by \<open>parseAlbumDetails\<close>.\<close>

record AlbumDetails =
  title :: jstr
  det_main_artists :: jstr
  total_length_hms :: jstr
  total_seconds :: int
  release_date_album :: "Date option"
  genre_first :: "jstr option"

text \<open>The record pushed to \<open>accepted\<close>.\<close>

record AcceptedRecord =
  album_title :: jstr
  main_artists :: jstr
  label :: jstr
  album_url :: jstr
  release_date :: Date

section \<open>The release-date extractor\<close>

text \<open>The concatenation of two expressions, both inside one capturing group: the value is
  the text they match.\<close>

definition rx_cat :: "jstr rx \<Rightarrow> jstr rx \<Rightarrow> jstr rx" where
  "rx_cat p q = rx_then p (\<lambda>a. rx_then q (\<lambda>b. rx_ret (a @ b)))"

text \<open>\<open>normalizeMonthToken\<close>: \<open>s.replace(/\./g, "")\<close>.\<close>

definition normalizeMonthToken :: "jstr \<Rightarrow> jstr" where
  "normalizeMonthToken s = filter (\<lambda>c. c \<noteq> 46) s"

text \<open>\<open>s.replace(/^Sept\s/i, "Sep ")\<close>\<close>

definition replace_sept :: "jstr \<Rightarrow> jstr" where
  "replace_sept s =
     (case rx_first (rx_cat (rx_lit_i (js ''Sept'')) (rx_greedy is_ws 1 (Some 1))) s of
        None \<Rightarrow> s
      | Some m \<Rightarrow> js ''Sep '' @ drop (length m) s)"

text \<open>\<open>s.indexOf(" ")\<close>, \<open>None\<close> for -1.\<close>

fun indexOf_space :: "jstr \<Rightarrow> nat option" where
  "indexOf_space [] = None"
| "indexOf_space (c # cs) = (if c = 32 then Some 0 else map_option Suc (indexOf_space cs))"

text \<open>\<open>/^([A-Za-z]+)\s+(\d{1,2}),\s*(\d{4})$/\<close>\<close>

definition rx_english_date :: "(jstr \<times> jstr \<times> jstr) rx" where
  "rx_english_date =
     rx_then (rx_greedy is_alpha 1 None) (\<lambda>mo.
     rx_then (rx_greedy is_ws 1 None) (\<lambda>_.
     rx_then (rx_greedy is_digit 1 (Some 2)) (\<lambda>d.
     rx_then (rx_lit (js '','')) (\<lambda>_.
     rx_then (rx_greedy is_ws 0 None) (\<lambda>_.
     rx_then (rx_greedy is_digit 4 (Some 4)) (\<lambda>y.
     rx_then rx_end (\<lambda>_. rx_ret (mo, d, y))))))))"

text \<open>The object \<open>map\<close> of \<open>parseEnglishMonthDate\<close>; \<open>None\<close> is \<open>undefined\<close>.\<close>

definition month_map :: "jstr \<Rightarrow> int option" where
  "month_map k =
     (if k = js ''jan'' then Some 0 else if k = js ''feb'' then Some 1
      else if k = js ''mar'' then Some 2 else if k = js ''apr'' then Some 3
      else if k = js ''may'' then Some 4 else if k = js ''jun'' then Some 5
      else if k = js ''jul'' then Some 6 else if k = js ''aug'' then Some 7
      else if k = js ''sep'' then Some 8 else if k = js ''oct'' then Some 9
      else if k = js ''nov'' then Some 10 else if k = js ''dec'' then Some 11 else None)"

definition parseEnglishMonthDate :: "jstr \<Rightarrow> Date option" where
  "parseEnglishMonthDate text =
     (let s0 = collapse_ws (trim text) in
      if s0 = [] then None
      else
        let s1 = replace_sept s0;
            s = (case indexOf_space s1 of
                   None \<Rightarrow> s1
                 | Some idx \<Rightarrow> normalizeMonthToken (take idx s1) @ drop idx s1)
        in case rx_first rx_english_date s of
             None \<Rightarrow> None
           | Some (mo, dd, yy) \<Rightarrow>
               (case month_map (toLowerCase (take 3 mo)) of
                  None \<Rightarrow> None
                | Some mon \<Rightarrow>
                    let day = Number dd; year = Number yy; d = Date_UTC year mon day
                    in if getUTCMonth d \<noteq> mon \<or> getUTCDate d \<noteq> day \<or> getUTCFullYear d \<noteq> year
                       then None else Some d))"

text \<open>\<open>/^(\d{1,2})\/(\d{1,2})\/(\d{2,4})$/\<close>\<close>

definition rx_numeric_date :: "(jstr \<times> jstr \<times> jstr) rx" where
  "rx_numeric_date =
     rx_then (rx_greedy is_digit 1 (Some 2)) (\<lambda>a.
     rx_then (rx_lit (js ''/'')) (\<lambda>_.
     rx_then (rx_greedy is_digit 1 (Some 2)) (\<lambda>b.
     rx_then (rx_lit (js ''/'')) (\<lambda>_.
     rx_then (rx_greedy is_digit 2 (Some 4)) (\<lambda>y.
     rx_then rx_end (\<lambda>_. rx_ret (a, b, y)))))))"

text \<open>The loop \<open>for (const v of variants)\<close>, over the triples month, day, year.\<close>

fun first_valid :: "(int \<times> int \<times> int) list \<Rightarrow> Date option" where
  "first_valid [] = None"
| "first_valid ((month, day, year) # vs) =
     (let d = Date_UTC year (month - 1) day
      in if getUTCFullYear d = year \<and> getUTCMonth d = month - 1 \<and> getUTCDate d = day
         then Some d else first_valid vs)"

definition parseNumericUsDate :: "jstr \<Rightarrow> Date option" where
  "parseNumericUsDate text =
     (let s = collapse_ws (trim text) in
      if s = [] then None
      else case rx_first rx_numeric_date s of
             None \<Rightarrow> None
           | Some (m1, m2, m3) \<Rightarrow>
               let year = (if Number m3 < 100 then 2000 + Number m3 else Number m3)
               in first_valid [(Number m1, Number m2, year), (Number m2, Number m1, year)])"

text \<open>The group \<open>([A-Za-z.]+ \d{1,2}, \d{4})\<close> and the group \<open>(\d{1,2}\/\d{1,2}\/\d{2,4})\<close>.\<close>

definition is_alpha_dot :: "int \<Rightarrow> bool" where
  "is_alpha_dot c \<longleftrightarrow> is_alpha c \<or> c = 46"

definition rx_month_group :: "jstr rx" where
  "rx_month_group =
     rx_cat (rx_greedy is_alpha_dot 1 None) (rx_cat (rx_lit (js '' ''))
       (rx_cat (rx_greedy is_digit 1 (Some 2)) (rx_cat (rx_lit (js '', ''))
         (rx_greedy is_digit 4 (Some 4)))))"

definition rx_num_group :: "jstr rx" where
  "rx_num_group =
     rx_cat (rx_greedy is_digit 1 (Some 2)) (rx_cat (rx_lit (js ''/''))
       (rx_cat (rx_greedy is_digit 1 (Some 2)) (rx_cat (rx_lit (js ''/''))
         (rx_greedy is_digit 2 (Some 4)))))"

text \<open>
  The three templates, each ending in a group: \<open>/\bReleased by .*? on (...)/i\<close>,
  \<open>/\bReleased on (...)/i\<close> and \<open>/\bTo be released on (...)/i\<close>.  The value is the group.
\<close>

definition rx_released_by :: "jstr rx \<Rightarrow> int option \<Rightarrow> jstr rx" where
  "rx_released_by grp prev =
     rx_then (rx_wb prev) (\<lambda>_.
     rx_then (rx_lit_i (js ''Released by '')) (\<lambda>_.
     rx_then (rx_lazy is_dot 0 None) (\<lambda>_.
     rx_then (rx_lit_i (js '' on '')) (\<lambda>_. grp))))"

definition rx_released_on :: "jstr rx \<Rightarrow> int option \<Rightarrow> jstr rx" where
  "rx_released_on grp prev =
     rx_then (rx_wb prev) (\<lambda>_. rx_then (rx_lit_i (js ''Released on '')) (\<lambda>_. grp))"

definition rx_to_be_released_on :: "jstr rx \<Rightarrow> int option \<Rightarrow> jstr rx" where
  "rx_to_be_released_on grp prev =
     rx_then (rx_wb prev) (\<lambda>_. rx_then (rx_lit_i (js ''To be released on '')) (\<lambda>_. grp))"

definition RELEASE_PATTERNS_MONTH :: "(int option \<Rightarrow> jstr rx) list" where
  "RELEASE_PATTERNS_MONTH =
     [rx_released_by rx_month_group, rx_released_on rx_month_group,
      rx_to_be_released_on rx_month_group]"

definition RELEASE_PATTERNS_NUM :: "(int option \<Rightarrow> jstr rx) list" where
  "RELEASE_PATTERNS_NUM =
     [rx_released_by rx_num_group, rx_released_on rx_num_group,
      rx_to_be_released_on rx_num_group]"

text \<open>One loop of \<open>extractReleaseDateFromText\<close>: the first template that matches with a
  group that parses decides.\<close>

fun try_patterns ::
  "(int option \<Rightarrow> jstr rx) list \<Rightarrow> (jstr \<Rightarrow> Date option) \<Rightarrow> jstr \<Rightarrow> Date option" where
  "try_patterns [] parse s = None"
| "try_patterns (rx # rxs) parse s =
     (case rx_match rx s of
        None \<Rightarrow> try_patterns rxs parse s
      | Some grp \<Rightarrow>
          (case parse grp of Some d \<Rightarrow> Some d | None \<Rightarrow> try_patterns rxs parse s))"

definition extractReleaseDateFromText :: "jstr \<Rightarrow> Date option" where
  "extractReleaseDateFromText text =
     (if text = [] then None
      else
        let normalized = trim (collapse_ws text) in
        case try_patterns RELEASE_PATTERNS_MONTH parseEnglishMonthDate normalized of
          Some d \<Rightarrow> Some d
        | None \<Rightarrow> try_patterns RELEASE_PATTERNS_NUM parseNumericUsDate normalized)"

text \<open>For the statements about the extractor: the match of a template at the position \<open>i\<close>
  of a string, where it has before it the code unit at the position \<open>i - 1\<close>.\<close>

definition match_at :: "(int option \<Rightarrow> 'a rx) \<Rightarrow> jstr \<Rightarrow> nat \<Rightarrow> 'a option" where
  "match_at p s i = rx_first (p (if i = 0 then None else Some (s ! (i - 1)))) (drop i s)"

text \<open>For the statements about the extractor: \<open>includes_i s w\<close> says that \<open>w\<close> occurs in
  \<open>s\<close> in some letter case.  \<open>phrase\<close> abbreviates the text of the claim in the
  proofs.\<close>

fun includes_i :: "jstr \<Rightarrow> jstr \<Rightarrow> bool" where
  "includes_i [] w = (w = [])"
| "includes_i (c # cs) w = (startsWith_i (c # cs) w \<or> includes_i cs w)"

definition phrase :: jstr where
  "phrase = js ''Released on May 3, 2024''"

section \<open>The album page\<close>

text \<open>\<open>s.split(sep, 1)[0]\<close>: the part of \<open>s\<close> before the first occurrence of a non-empty
  separator, all of \<open>s\<close> when there is none.\<close>

fun before :: "jstr \<Rightarrow> jstr \<Rightarrow> jstr" where
  "before [] sep = []"
| "before (c # cs) sep = (if startsWith (c # cs) sep then [] else c # before cs sep)"

text \<open>\<open>s.split(sep)\<close> for a separator of one code unit, and \<open>xs.join(sep)\<close>.\<close>

fun split_at :: "int \<Rightarrow> jstr \<Rightarrow> jstr list" where
  "split_at d [] = [[]]"
| "split_at d (c # cs) =
     (if c = d then [] # split_at d cs
      else case split_at d cs of [] \<Rightarrow> [[c]] | p # ps \<Rightarrow> (c # p) # ps)"

fun join :: "jstr \<Rightarrow> jstr list \<Rightarrow> jstr" where
  "join sep [] = []"
| "join sep [x] = x"
| "join sep (x # y # ys) = x @ sep @ join sep (y # ys)"

text \<open>\<open>s.split(rx)\<close> for an expression \<open>[...]+\<close> of a character class, such as \<open>/\n+/\<close> and
  \<open>/\s+/\<close>: the pieces between the maximal runs of the class.\<close>

function split_runs :: "(int \<Rightarrow> bool) \<Rightarrow> jstr \<Rightarrow> jstr list" where
  "split_runs P s =
     (let piece = takeWhile (\<lambda>c. \<not> P c) s; r = dropWhile (\<lambda>c. \<not> P c) s
      in if r = [] then [piece] else piece # split_runs P (dropWhile P r))"
  by pat_completeness auto
termination
proof (relation "measure (\<lambda>(P, s). length s)")
  show "wf (measure (\<lambda>(P, s). length s))" by simp
next
  fix P :: "int \<Rightarrow> bool" and s piece r :: jstr
  assume r: "r = dropWhile (\<lambda>c. \<not> P c) s" and ne: "r \<noteq> []"
  from ne obtain c cs where c: "r = c # cs" by (cases r) simp_all
  have "\<not> \<not> P (hd (dropWhile (\<lambda>c. \<not> P c) s))"
    using ne unfolding r by (rule hd_dropWhile)
  then have "P c" using c r by simp
  then have "length (dropWhile P r) \<le> length cs" by (simp add: c length_dropWhile_le)
  moreover have "length r \<le> length s" unfolding r by (rule length_dropWhile_le)
  ultimately show "((P, dropWhile P r), (P, s)) \<in> measure (\<lambda>(P, s). length s)"
    by (simp add: c)
qed

declare split_runs.simps [simp del]

text \<open>\<open>$.root().text().split(/\n+/).map((l) => l.trim()).filter(Boolean)\<close>\<close>

definition text_lines :: "jstr \<Rightarrow> jstr list" where
  "text_lines t = filter (\<lambda>l. l \<noteq> []) (map trim (split_runs (\<lambda>c. c = 10) t))"

subsection \<open>The duration\<close>

text \<open>\<open>/^(\d{1,2}):(\d{2})(?::(\d{2}))?$/\<close>; the third group is \<open>None\<close> when it is
  \<open>undefined\<close>.\<close>

definition rx_hms :: "(jstr \<times> jstr \<times> jstr option) rx" where
  "rx_hms =
     rx_then (rx_greedy is_digit 1 (Some 2)) (\<lambda>a.
     rx_then (rx_lit (js '':'')) (\<lambda>_.
     rx_then (rx_greedy is_digit 2 (Some 2)) (\<lambda>b.
     rx_then (rx_opt (rx_then (rx_lit (js '':'')) (\<lambda>_. rx_greedy is_digit 2 (Some 2)))) (\<lambda>c.
     rx_then rx_end (\<lambda>_. rx_ret (a, b, c))))))"

definition hmsToSeconds :: "jstr \<Rightarrow> int option" where
  "hmsToSeconds v =
     (case rx_first rx_hms (trim v) of
        None \<Rightarrow> None
      | Some (m1, m2, None) \<Rightarrow> Some (Number m1 * 60 + Number m2)
      | Some (m1, m2, Some m3) \<Rightarrow> Some (Number m1 * 3600 + Number m2 * 60 + Number m3))"

text \<open>\<open>/Total length:\s*([0-9]{1,2}:[0-9]{2}(?::[0-9]{2})?)/i\<close>; the value is the group.\<close>

definition rx_opt_text :: "jstr rx \<Rightarrow> jstr rx" where
  "rx_opt_text p = rx_or p (rx_ret [])"

definition rx_duration_group :: "jstr rx" where
  "rx_duration_group =
     rx_cat (rx_greedy is_digit 1 (Some 2)) (rx_cat (rx_lit (js '':''))
       (rx_cat (rx_greedy is_digit 2 (Some 2))
         (rx_opt_text (rx_cat (rx_lit (js '':'')) (rx_greedy is_digit 2 (Some 2))))))"

definition rx_total_length :: "int option \<Rightarrow> jstr rx" where
  "rx_total_length prev =
     rx_then (rx_lit_i (js ''Total length:'')) (\<lambda>_.
     rx_then (rx_greedy is_ws 0 None) (\<lambda>_. rx_duration_group))"

subsection \<open>The release date of the album page\<close>

text \<open>\<open>/\b(released|to be released)\b/i.test(line)\<close>.  The closing \<open>\b\<close> follows the
  letter d, a word character.\<close>

definition rx_released_word :: "int option \<Rightarrow> jstr rx" where
  "rx_released_word prev =
     rx_then (rx_wb prev) (\<lambda>_.
     rx_then (rx_or (rx_lit_i (js ''released'')) (rx_lit_i (js ''to be released''))) (\<lambda>w.
     rx_then (rx_wb (Some 100)) (\<lambda>_. rx_ret w)))"

text \<open>The loop over \<open>lines.slice(0, 120)\<close> of \<open>parseAlbumReleaseDate\<close>.\<close>

fun first_release_line :: "jstr list \<Rightarrow> Date option" where
  "first_release_line [] = None"
| "first_release_line (line # ls) =
     (if rx_match rx_released_word line \<noteq> None
      then (case extractReleaseDateFromText line of
              Some d \<Rightarrow> Some d | None \<Rightarrow> first_release_line ls)
      else first_release_line ls)"

definition parseAlbumReleaseDate :: "jstr \<Rightarrow> Date option" where
  "parseAlbumReleaseDate root_text =
     (let lines = text_lines root_text in
      case first_release_line (take 120 lines) of
        Some d \<Rightarrow> Some d
      | None \<Rightarrow> extractReleaseDateFromText (join (js '' '') lines))"

subsection \<open>The genre\<close>

text \<open>\<open>l.replace(/^[\s#*\-\<bullet>]+/, "")\<close>; the bullet is U+2022.\<close>

definition is_line_mark :: "int \<Rightarrow> bool" where
  "is_line_mark c \<longleftrightarrow> is_ws c \<or> c = 35 \<or> c = 42 \<or> c = 45 \<or> c = 8226"

definition genre_lines :: "jstr \<Rightarrow> jstr list" where
  "genre_lines t =
     filter (\<lambda>l. l \<noteq> []) (map (\<lambda>l. trim (dropWhile is_line_mark l)) (text_lines t))"

text \<open>\<open>/^(main artists|composer|label|total length|available in)\b/i.test(n)\<close>.  The
  \<open>\b\<close> follows a letter.\<close>

definition rx_heading :: "jstr rx" where
  "rx_heading =
     rx_then (rx_or (rx_lit_i (js ''main artists'')) (rx_or (rx_lit_i (js ''composer''))
       (rx_or (rx_lit_i (js ''label'')) (rx_or (rx_lit_i (js ''total length''))
         (rx_lit_i (js ''available in'')))))) (\<lambda>w.
     rx_then (rx_wb (Some 115)) (\<lambda>_. rx_ret w))"

text \<open>The loop over \<open>window.slice(i + 1, i + 10)\<close> that fills \<open>tags\<close>, and
  \<open>tags[0] || null\<close>.\<close>

fun collect_tags :: "jstr list \<Rightarrow> jstr list" where
  "collect_tags [] = []"
| "collect_tags (next # ls) =
     (let n = trim next in
      if n = [] then collect_tags ls
      else if rx_first rx_heading n \<noteq> None \<or> endsWith n (js '':'') then []
      else n # collect_tags ls)"

definition first_tag :: "jstr list \<Rightarrow> jstr option" where
  "first_tag ls = (case collect_tags ls of [] \<Rightarrow> None | t # _ \<Rightarrow> if t = [] then None else Some t)"

text \<open>\<open>x || null\<close> for a string.\<close>

definition or_null :: "jstr \<Rightarrow> jstr option" where
  "or_null x = (if x = [] then None else Some x)"

text \<open>The delimiters, in the order of the loop; U+203A is 8250.\<close>

definition delimiters :: "int list" where
  "delimiters = [47, 44, 124, 8250, 62]"

text \<open>The end of the loop body, for a \<open>raw\<close> that is not empty: from
  \<open>if (raw.toLowerCase().startsWith("classical"))\<close> on.\<close>

fun cut_at_delimiter :: "int list \<Rightarrow> jstr \<Rightarrow> jstr option option" where
  "cut_at_delimiter [] raw = None"
| "cut_at_delimiter (delim # ds) raw =
     (if str_includes raw [delim] then Some (or_null (trim (before raw [delim])))
      else cut_at_delimiter ds raw)"

definition normalize_genre :: "jstr \<Rightarrow> jstr option" where
  "normalize_genre raw =
     (if startsWith (toLowerCase raw) (js ''classical'') then Some (js ''Classical'')
      else case cut_at_delimiter delimiters raw of
             Some g \<Rightarrow> g
           | None \<Rightarrow> or_null (trim (before raw (js '' ''))))"

text \<open>The start of the loop body: the value \<open>raw\<close> of a line, \<open>None\<close> where the loop
  continues with the next line.\<close>

definition genre_raw :: "jstr \<Rightarrow> jstr option" where
  "genre_raw line =
     (let cf = toLowerCase line in
      if \<not> str_includes cf (js ''genre'') then None
      else if str_includes line (js '':'')
      then (case split_at 58 line of
              [] \<Rightarrow> None
            | left # rest \<Rightarrow>
                if toLowerCase (trim left) \<noteq> js ''genre'' then None
                else Some (trim (collapse_ws (join (js '':'') rest))))
      else if \<not> startsWith cf (js ''genre'') then None
      else Some (trim (join (js '' '') (tl (split_runs is_ws line)))))"

text \<open>The loop over \<open>window\<close>; \<open>ls\<close> are the lines of the window after the line \<open>i\<close>.\<close>

fun genre_loop :: "jstr list \<Rightarrow> jstr option" where
  "genre_loop [] = None"
| "genre_loop (line # ls) =
     (case genre_raw line of
        None \<Rightarrow> genre_loop ls
      | Some raw \<Rightarrow> if raw = [] then first_tag (take 9 ls) else normalize_genre raw)"

definition parseAlbumFirstGenre :: "jstr \<Rightarrow> jstr option" where
  "parseAlbumFirstGenre root_text =
     (let lines = genre_lines root_text;
          from_about = dropWhile (\<lambda>line. \<not> str_includes (toLowerCase line) (js ''about the album'')) lines
      in if from_about = [] then None else genre_loop (take 160 from_about))"

text \<open>
  For the statement about the genre.  The window is what the loop reads: the at most 160
  lines from the first one that contains "about the album".  A heading line is a line that
  ends the list of tags: it begins with one of five headings, in any letter case and not
  followed by a word character, or it ends with a colon.
\<close>

definition genre_window :: "jstr \<Rightarrow> jstr list" where
  "genre_window page_text =
     take 160 (dropWhile (\<lambda>line. \<not> str_includes (toLowerCase line) (js ''about the album''))
       (genre_lines page_text))"

definition headings :: "jstr list" where
  "headings = [js ''main artists'', js ''composer'', js ''label'', js ''total length'',
     js ''available in'']"

definition heading_line :: "jstr \<Rightarrow> bool" where
  "heading_line n \<longleftrightarrow>
     (\<exists>h \<in> set headings. startsWith_i n h \<and> \<not> word_next (drop (length h) n))
     \<or> endsWith n (js '':'')"

text \<open>Three pages: the genre line has a value of its own; it has none and a line of tags
  follows; it has none and a heading follows.\<close>

definition genre_page_value :: jstr where
  "genre_page_value = js ''About the album'' @ [10] @ js ''Label: Sony'' @ [10]
     @ js ''Genre: Jazz, Fusion > Rock'' @ [10] @ js ''Pop'' @ [10]"

definition genre_page_tags :: jstr where
  "genre_page_tags = js ''Intro'' @ [10] @ js ''About the album'' @ [10] @ js ''Label: Sony''
     @ [10] @ js ''  - Genre'' @ [10] @ js ''  Jazz Fusion / Rock '' @ [10] @ js ''Pop'' @ [10]"

definition genre_page_heading :: jstr where
  "genre_page_heading = js ''About the album'' @ [10] @ js ''Genre'' @ [10]
     @ js ''Label: Sony'' @ [10] @ js ''Jazz'' @ [10]"

subsection \<open>The details\<close>

text \<open>
  What \<open>parseAlbumDetails\<close> reads of the document that cheerio builds from the HTML: the
  text of the first \<open>h1\<close> (empty when there is none), for every element selected by
  \<open>"li, p, div"\<close>, in document order, its text and the texts of the anchors inside it, and
  the text of the root.
\<close>

record Block =
  block_text :: jstr
  anchor_texts :: "jstr list"

record AlbumPage =
  h1_text :: jstr
  blocks :: "Block list"
  root_text :: jstr

definition page_title :: "AlbumPage \<Rightarrow> jstr" where
  "page_title page =
     (let h1 = trim (collapse_ws (h1_text page)) in
      if h1 = [] then []
      else if str_includes h1 (js '' by '') then trim (before h1 (js '' by '')) else h1)"

definition page_main_artists :: "AlbumPage \<Rightarrow> jstr" where
  "page_main_artists page =
     (case find (\<lambda>el. startsWith (toLowerCase (trim (collapse_ws (block_text el))))
                      (js ''main artists:'')) (blocks page) of
        None \<Rightarrow> []
      | Some mainBlock \<Rightarrow>
          let artists = filter (\<lambda>v. v \<noteq> [])
                (map (\<lambda>a. trim (collapse_ws a)) (anchor_texts mainBlock))
          in if artists \<noteq> [] then join (js '', '') artists
             else trim (collapse_ws (join (js '':'') (tl (split_at 58 (block_text mainBlock))))))"

definition parseAlbumDetails :: "AlbumPage \<Rightarrow> AlbumDetails option" where
  "parseAlbumDetails page =
     (let title = page_title page; mainArtists = page_main_artists page in
      case rx_match rx_total_length (root_text page) of
        None \<Rightarrow> None
      | Some m1 \<Rightarrow>
          let totalHms = trim m1 in
          case hmsToSeconds totalHms of
            None \<Rightarrow> None
          | Some totalSeconds \<Rightarrow>
              if title = [] \<and> mainArtists = [] then None
              else Some \<lparr> title = title, det_main_artists = mainArtists,
                     total_length_hms = totalHms, total_seconds = totalSeconds,
                     release_date_album = parseAlbumReleaseDate (root_text page),
                     genre_first = parseAlbumFirstGenre (root_text page) \<rparr>)"

text \<open>For the statements about the duration: \<open>duration2 a b\<close> says that \<open>a\<close> is one or
  two digits and \<open>b\<close> two digits.\<close>

definition duration2 :: "jstr \<Rightarrow> jstr \<Rightarrow> bool" where
  "duration2 a b \<longleftrightarrow> list_all is_digit a \<and> (length a = 1 \<or> length a = 2)
     \<and> list_all is_digit b \<and> length b = 2"

text \<open>Album pages: with a duration of two components, of three components, without a
  duration, and with a duration but neither a heading nor a block of main artists.\<close>

definition page_two :: AlbumPage where
  "page_two = \<lparr> h1_text = js ''Partitas by Glenn Gould'',
     blocks = [\<lparr> block_text = js ''Main artists: Glenn Gould'', anchor_texts = [js ''Glenn Gould''] \<rparr>],
     root_text = js ''Partitas'' @ [10] @ js ''Total length: 1:30'' @ [10] \<rparr>"

definition page_three :: AlbumPage where
  "page_three = page_two \<lparr> root_text := js ''Partitas'' @ [10] @ js ''Total length: 1:02:03'' @ [10] \<rparr>"

definition page_none :: AlbumPage where
  "page_none = page_two \<lparr> root_text := js ''Partitas'' @ [10] @ js ''Total length: n/a'' @ [10] \<rparr>"

definition page_anon :: AlbumPage where
  "page_anon = \<lparr> h1_text = [], blocks = [\<lparr> block_text = js ''Label: Sony'', anchor_texts = [] \<rparr>],
     root_text = js ''Label: Sony'' @ [10] @ js ''Total length: 1:02:03'' @ [10] \<rparr>"

section \<open>Deduplication\<close>

text \<open>\<open>normalizeKey\<close>: \<open>String(s || "").trim().replace(/\s+/g, " ").toLowerCase()\<close>.\<close>

definition normalizeKey :: "jstr \<Rightarrow> jstr" where
  "normalizeKey s = toLowerCase (collapse_ws (trim s))"

text \<open>The key built in the deduplication loop of \<open>runQobuzScraper\<close>.\<close>

definition dedup_key :: "AcceptedRecord \<Rightarrow> jstr" where
  "dedup_key r = normalizeKey (album_title r) @ js ''||'' @ normalizeKey (main_artists r)
      @ js ''||'' @ normalizeKey (label r)"

record DedupState =
  dedup :: "AcceptedRecord list"
  seen :: "jstr set"
  dstats :: Stats

text \<open>The body of \<open>accepted.forEach\<close>.\<close>

definition dedup_step :: "AcceptedRecord \<Rightarrow> DedupState \<Rightarrow> DedupState" where
  "dedup_step r st =
     (let key = dedup_key r in
      if key \<in> seen st
      then st \<lparr> dstats := (dstats st) \<lparr> duplicatesRemoved := duplicatesRemoved (dstats st) + 1 \<rparr> \<rparr>
      else st \<lparr> seen := insert key (seen st), dedup := dedup st @ [r] \<rparr>)"

fun dedup_loop :: "AcceptedRecord list \<Rightarrow> DedupState \<Rightarrow> DedupState" where
  "dedup_loop [] st = st"
| "dedup_loop (r # rs) st = dedup_loop rs (dedup_step r st)"

text \<open>The deduplication phase: the loop from an empty list and an empty set, then
  \<open>stats.accepted = dedup.length\<close>.\<close>

definition dedup_phase :: "AcceptedRecord list \<Rightarrow> Stats \<Rightarrow> AcceptedRecord list \<times> Stats" where
  "dedup_phase recs stats =
     (let st = dedup_loop recs \<lparr> dedup = [], seen = {}, dstats = stats \<rparr>
      in (dedup st, (dstats st) \<lparr> accepted := length (dedup st) \<rparr>))"

text \<open>Auxiliary to the proofs: what the loop appends to the list, as a function of the set of
  keys seen so far.\<close>

fun fresh :: "jstr set \<Rightarrow> AcceptedRecord list \<Rightarrow> AcceptedRecord list" where
  "fresh S [] = []"
| "fresh S (r # rs) = (if dedup_key r \<in> S then fresh S rs else r # fresh (insert (dedup_key r) S) rs)"

subsection \<open>The key in the words of the specification\<close>

text \<open>
  For the statement of the deduplication.  The words of a string are its maximal runs of
  code units that are not white space.  A string is white-space-collapsed when its words are
  joined by single spaces.  The key of a record is made of its title, its main artists and
  its label, each white-space-collapsed and lower-cased, with \<open>||\<close> between them.  The
  record at position \<open>i\<close> of a list is the first of its key when no record before it has
  that key.
\<close>

function ws_words :: "jstr \<Rightarrow> jstr list" where
  "ws_words s =
     (let r = dropWhile is_ws s in
      if r = [] then []
      else takeWhile (\<lambda>c. \<not> is_ws c) r # ws_words (dropWhile (\<lambda>c. \<not> is_ws c) r))"
  by pat_completeness auto
termination
proof (relation "measure length")
  show "wf (measure length)" by simp
next
  fix s r :: jstr
  assume r: "r = dropWhile is_ws s" and ne: "r \<noteq> []"
  from ne obtain c cs where c: "r = c # cs" by (cases r) auto
  from ne have "\<not> is_ws (hd r)" unfolding r by (rule hd_dropWhile)
  then have "\<not> is_ws c" by (simp add: c)
  with c have "length (dropWhile (\<lambda>c. \<not> is_ws c) r) \<le> length cs"
    by (simp add: length_dropWhile_le)
  also have "\<dots> < length r" by (simp add: c)
  also have "\<dots> \<le> length s" by (simp add: r length_dropWhile_le)
  finally show "(dropWhile (\<lambda>c. \<not> is_ws c) r, s) \<in> measure length" by simp
qed

declare ws_words.simps [simp del]

fun unwords :: "jstr list \<Rightarrow> jstr" where
  "unwords [] = []"
| "unwords [w] = w"
| "unwords (w # v # ws) = w @ 32 # unwords (v # ws)"

definition whitespace_collapsed :: "jstr \<Rightarrow> jstr" where
  "whitespace_collapsed s = unwords (ws_words s)"

definition record_key :: "AcceptedRecord \<Rightarrow> jstr" where
  "record_key r =
     toLowerCase (whitespace_collapsed (album_title r)) @ js ''||''
       @ toLowerCase (whitespace_collapsed (main_artists r)) @ js ''||''
       @ toLowerCase (whitespace_collapsed (label r))"

definition first_of_key :: "AcceptedRecord list \<Rightarrow> nat \<Rightarrow> bool" where
  "first_of_key recs i \<longleftrightarrow> (\<forall>r \<in> set (take i recs). record_key r \<noteq> record_key (recs ! i))"

subsection \<open>Example records\<close>

text \<open>
  Seven records.  The second is the first up to letter case and white space in all three
  fields; the third and the fourth differ from the first in the label only and in the main
  artists only; the sixth is the fifth in capital letters, where the names of the composer
  and of the label have letters outside ASCII (U+00ED, U+0159 and U+00E1 in the one, U+0141,
  U+00F3 and U+017A in the other); the seventh has a title of its own.
\<close>

definition example_record :: "jstr \<Rightarrow> jstr \<Rightarrow> jstr \<Rightarrow> jstr \<Rightarrow> AcceptedRecord" where
  "example_record t a l u =
     \<lparr> album_title = t, main_artists = a, label = l, album_url = u,
       release_date = Date 1704844800000 \<rparr>"

definition rec_a :: AcceptedRecord where
  "rec_a = example_record (js ''Goldberg Variations'') (js ''Glenn Gould'') (js ''Sony'')
     (js ''https://x/album/1'')"

definition rec_b :: AcceptedRecord where
  "rec_b = example_record (js ''  GOLDBERG '' @ [9, 160] @ js ''variations '')
     (js ''glenn   GOULD'') (js '' SONY'') (js ''https://x/album/2'')"

definition rec_c :: AcceptedRecord where
  "rec_c = example_record (js ''Goldberg Variations'') (js ''Glenn Gould'') (js ''Decca'')
     (js ''https://x/album/3'')"

definition rec_d :: AcceptedRecord where
  "rec_d = example_record (js ''Goldberg Variations'') (js ''Andras Schiff'') (js ''Sony'')
     (js ''https://x/album/4'')"

definition rec_e :: AcceptedRecord where
  "rec_e = example_record (js ''Slavonic Dances'')
     (js ''Anton'' @ [237] @ js ''n Dvo'' @ [345, 225] @ js ''k'')
     ([321, 243] @ js ''d'' @ [378] @ js '' Records'') (js ''https://x/album/5'')"

definition rec_f :: AcceptedRecord where
  "rec_f = example_record (js ''SLAVONIC DANCES'')
     (js ''ANTON'' @ [205] @ js ''N DVO'' @ [344, 193] @ js ''K'')
     ([321, 211] @ js ''D'' @ [377] @ js '' RECORDS'') (js ''https://x/album/6'')"

definition rec_g :: AcceptedRecord where
  "rec_g = example_record (js ''Partitas'') (js ''Glenn Gould'') (js ''Sony'')
     (js ''https://x/album/7'')"

section \<open>The fetch layer\<close>

text \<open>
  What \<open>await fetch(url, ...)\<close> and \<open>await response.text()\<close> give: a response with its
  status and its body (\<open>None\<close> when reading the body throws), or a failure: the request
  throws, on a network error or when the timeout aborts it.
\<close>

datatype response = Response int "jstr option" | Failure

text \<open>
  The network is a parameter: the response to a URL, given how many requests the run has made
  before.  The state of a run is its counters, the number of requests made, and the delays
  passed to \<open>sleep\<close> by \<open>fetchHtml\<close>, in milliseconds, in order.
\<close>

type_synonym network = "nat \<Rightarrow> jstr \<Rightarrow> response"

record RunState =
  rstats :: Stats
  requests :: nat
  sleeps :: "int list"

definition http_error :: "RunState \<Rightarrow> RunState" where
  "http_error st = st \<lparr> rstats := (rstats st) \<lparr> httpErrors := httpErrors (rstats st) + 1 \<rparr> \<rparr>"

definition sleep :: "int \<Rightarrow> RunState \<Rightarrow> RunState" where
  "sleep ms st = st \<lparr> sleeps := sleeps st @ [ms] \<rparr>"

text \<open>
  The loop \<open>for (let attempt = 1; attempt <= config.retries; attempt += 1)\<close> of
  \<open>fetchHtml\<close>, from a given attempt on, and what follows the loop.  A thrown error goes to
  the \<open>catch\<close> block, whose \<open>break\<close> leads to the statements after the loop.
\<close>

function fetch_attempts ::
  "network \<Rightarrow> Config \<Rightarrow> jstr \<Rightarrow> nat \<Rightarrow> RunState \<Rightarrow> jstr option \<times> RunState" where
  "fetch_attempts net config url attempt st =
     (if \<not> attempt \<le> retries config then (None, http_error st)
      else
        let st1 = st \<lparr> requests := requests st + 1 \<rparr>;
            caught =
              (if attempt > retries config then (None, http_error st1)
               else fetch_attempts net config url (attempt + 1)
                      (sleep (1000 * 2 ^ (attempt - 1)) st1))
        in case net (requests st) url of
             Failure \<Rightarrow> caught
           | Response status body \<Rightarrow>
               if status = 429
               then fetch_attempts net config url (attempt + 1)
                      (sleep (2000 * 2 ^ (attempt - 1)) st1)
               else if status \<ge> 500 \<and> status < 600
               then fetch_attempts net config url (attempt + 1)
                      (sleep (1000 * 2 ^ (attempt - 1)) st1)
               else if status \<noteq> 200 then (None, http_error st1)
               else (case body of Some text \<Rightarrow> (Some text, st1) | None \<Rightarrow> caught))"
  by pat_completeness auto
termination
  by (relation "measure (\<lambda>(net, config, url, attempt, st). Suc (retries config) - attempt)") auto

declare fetch_attempts.simps [simp del]

definition fetchHtml :: "network \<Rightarrow> Config \<Rightarrow> jstr \<Rightarrow> RunState \<Rightarrow> jstr option \<times> RunState" where
  "fetchHtml net config url st = fetch_attempts net config url 1 st"

text \<open>A network that answers every request with status 200 and a page.\<close>

definition net_ok :: network where
  "net_ok k u = Response 200 (Some (js ''<html></html>''))"

definition run0 :: RunState where
  "run0 = \<lparr> rstats = stats0, requests = 0, sleeps = [] \<rparr>"

section \<open>The album loop: final date and filter stages\<close>

text \<open>What the album loop of \<open>runQobuzScraper\<close> changes: the list \<open>accepted\<close>, the list
  \<open>missingRows\<close> and the counters.\<close>

record AlbumState =
  accepted_list :: "AcceptedRecord list"
  missingRows :: "jstr list"
  astats :: Stats

text \<open>The line pushed to \<open>missingRows\<close>; code unit 9 is the tab.\<close>

definition missing_row :: "Candidate \<Rightarrow> AlbumDetails \<Rightarrow> jstr" where
  "missing_row cand det =
     label_name cand @ [9] @ cand_album_url cand @ [9]
       @ formatPlDate (release_date_listing cand) @ [9] @ title det @ [9] @ det_main_artists det"

definition accepted_record :: "Candidate \<Rightarrow> AlbumDetails \<Rightarrow> Date \<Rightarrow> AcceptedRecord" where
  "accepted_record cand det finalRelease =
     \<lparr> album_title = title det, main_artists = det_main_artists det, label = label_name cand,
       album_url = cand_album_url cand, release_date = finalRelease \<rparr>"

text \<open>The two later stages, from \<open>const genre = ...\<close> to \<open>accepted.push\<close>.
  \<open>String(det.genre_first || "")\<close> is the empty string for \<open>null\<close>.\<close>

definition genre_and_length ::
  "Config \<Rightarrow> Candidate \<Rightarrow> AlbumDetails \<Rightarrow> Date \<Rightarrow> AlbumState \<Rightarrow> AlbumState" where
  "genre_and_length config cand det finalRelease st =
     (let genre = toLowerCase (trim (case genre_first det of None \<Rightarrow> [] | Some g \<Rightarrow> g)) in
      if \<not> startsWith genre (toLowerCase (genre_root config))
      then st \<lparr> astats := (astats st) \<lparr> rejectedByGenre := rejectedByGenre (astats st) + 1 \<rparr> \<rparr>
      else if total_seconds det < min_minutes config * 60
      then st \<lparr> astats := (astats st) \<lparr> rejectedByLength := rejectedByLength (astats st) + 1 \<rparr> \<rparr>
      else st \<lparr> accepted_list := accepted_list st @ [accepted_record cand det finalRelease] \<rparr>)"

text \<open>The loop body from \<open>let finalRelease = det.release_date_album\<close> on, for a candidate
  whose album page gave the details \<open>det\<close>.  A \<open>Date\<close> object is never falsy, so
  \<open>!finalRelease\<close> holds for \<open>null\<close> only.\<close>

definition album_filter :: "Config \<Rightarrow> Candidate \<Rightarrow> AlbumDetails \<Rightarrow> AlbumState \<Rightarrow> AlbumState" where
  "album_filter config cand det st =
     (case release_date_album det of
        None \<Rightarrow>
          genre_and_length config cand det (release_date_listing cand)
            (st \<lparr> astats := (astats st) \<lparr> missingAlbumDate := missingAlbumDate (astats st) + 1 \<rparr>,
                 missingRows := missingRows st @ [missing_row cand det] \<rparr>)
      | Some finalRelease \<Rightarrow>
          if getTime finalRelease < getTime (date_from config)
             \<or> getTime finalRelease > getTime (date_to config)
          then st \<lparr> astats := (astats st)
                 \<lparr> rejectedByDateMismatch := rejectedByDateMismatch (astats st) + 1 \<rparr> \<rparr>
          else genre_and_length config cand det finalRelease st)"

text \<open>
  Names for the statements about the loop body: the conditions of the three stages as the
  code tests them, the state and the final date after the first stage has let the
  candidate through, and the three rejection counters.
\<close>

definition date_mismatch :: "Config \<Rightarrow> AlbumDetails \<Rightarrow> bool" where
  "date_mismatch config det =
     (case release_date_album det of None \<Rightarrow> False
      | Some r \<Rightarrow> getTime r < getTime (date_from config) \<or> getTime r > getTime (date_to config))"

definition genre_ok :: "Config \<Rightarrow> AlbumDetails \<Rightarrow> bool" where
  "genre_ok config det =
     startsWith (toLowerCase (trim (case genre_first det of None \<Rightarrow> [] | Some g \<Rightarrow> g)))
       (toLowerCase (genre_root config))"

definition long_enough :: "Config \<Rightarrow> AlbumDetails \<Rightarrow> bool" where
  "long_enough config det = (\<not> total_seconds det < min_minutes config * 60)"

definition after_date_stage :: "Candidate \<Rightarrow> AlbumDetails \<Rightarrow> AlbumState \<Rightarrow> AlbumState" where
  "after_date_stage cand det st =
     (case release_date_album det of
        None \<Rightarrow> st \<lparr> astats := (astats st) \<lparr> missingAlbumDate := missingAlbumDate (astats st) + 1 \<rparr>,
                     missingRows := missingRows st @ [missing_row cand det] \<rparr>
      | Some r \<Rightarrow> st)"

definition final_release :: "Candidate \<Rightarrow> AlbumDetails \<Rightarrow> Date" where
  "final_release cand det =
     (case release_date_album det of None \<Rightarrow> release_date_listing cand | Some r \<Rightarrow> r)"

definition rejections :: "AlbumState \<Rightarrow> nat \<times> nat \<times> nat" where
  "rejections st = (rejectedByDateMismatch (astats st), rejectedByGenre (astats st),
     rejectedByLength (astats st))"

text \<open>A configuration (January 2024, 15 minutes, Classical), a candidate, and the details of
  an album dated outside the range, of another genre and too short.\<close>

definition config_ex :: Config where
  "config_ex = \<lparr> date_from = Date 1704067200000, date_to = Date 1706659200000,
     min_minutes = 15, max_pages_per_label = 2, retries = 3, genre_root = js ''Classical'' \<rparr>"

definition cand_ex :: Candidate where
  "cand_ex = \<lparr> cand_album_url = js ''https://www.qobuz.com/album/x'', label_name = js ''Alpha'',
     release_date_listing = Date 1704844800000 \<rparr>"

definition det_bad :: AlbumDetails where
  "det_bad = \<lparr> title = js ''Kind of Blue'', det_main_artists = js ''Miles Davis'',
     total_length_hms = js ''10:00'', total_seconds = 600,
     release_date_album = Some (Date 1707955200000), genre_first = Some (js ''Jazz'') \<rparr>"

definition astate0 :: AlbumState where
  "astate0 = \<lparr> accepted_list = [], missingRows = [], astats = stats0 \<rparr>"

text \<open>A candidate whose listing date (15 February 2024) is outside the configured range, and
  the details of a long enough Classical album without a date.\<close>

definition cand_late :: Candidate where
  "cand_late = \<lparr> cand_album_url = js ''https://www.qobuz.com/album/y'', label_name = js ''Alpha'',
     release_date_listing = Date 1707955200000 \<rparr>"

definition det_nodate :: AlbumDetails where
  "det_nodate = \<lparr> title = js ''Partitas'', det_main_artists = js ''Glenn Gould'',
     total_length_hms = js ''1:02:03'', total_seconds = 3723,
     release_date_album = None, genre_first = Some (js ''Classical'') \<rparr>"

section \<open>The listing phase\<close>

text \<open>
  What the listing functions read of the document that cheerio builds from a listing page.
  For every element selected by \<open>"a[href]"\<close>, in document order: its \<open>href\<close>; the album URL
  \<open>new URL(href, pageUrl).toString().split("#", 1)[0]\<close>, or the error that \<open>new URL\<close>
  throws; and the chain of containers that \<open>extractListingReleaseDateForLink\<close> climbs,
  the link itself first and then its ancestors.  Of a container: the album URLs of the
  links with \<open>/album/\<close> inside it (or the error thrown on the way) and its text.  Of the
  page: the result of \<open>listingHasPage2\<close>, or the error it throws.
\<close>

record Container =
  inner_links :: "error + jstr list"
  container_text :: jstr

record Anchor =
  href :: jstr
  album_link :: "error + jstr"
  chain :: "Container list"

record ListingPage =
  anchors :: "Anchor list"
  hasPage2 :: "error + bool"

text \<open>\<open>extractListingReleaseDateForLink\<close>: the loop over at most \<open>maxHops\<close> nodes.
  \<open>albumLinks.size === 1 && albumLinks.has(albumUrl)\<close> says that the set of the links is
  the singleton of \<open>albumUrl\<close>.\<close>

fun climb :: "nat \<Rightarrow> jstr \<Rightarrow> Container list \<Rightarrow> error + Date option" where
  "climb 0 albumUrl cs = Inr None"
| "climb (Suc hops) albumUrl [] = Inr None"
| "climb (Suc hops) albumUrl (c # cs) =
     (case inner_links c of
        Inl e \<Rightarrow> Inl e
      | Inr links \<Rightarrow>
          if set links = {albumUrl}
          then (case extractReleaseDateFromText (trim (collapse_ws (container_text c))) of
                  Some rel \<Rightarrow> Inr (Some rel)
                | None \<Rightarrow> climb hops albumUrl cs)
          else climb hops albumUrl cs)"

definition extractListingReleaseDateForLink :: "Anchor \<Rightarrow> jstr \<Rightarrow> error + Date option" where
  "extractListingReleaseDateForLink link albumUrl = climb 10 albumUrl (chain link)"

text \<open>The callback of \<open>$("a[href]").each\<close> in \<open>extractAlbumCandidatesFromListing\<close>, over
  the links in order: the candidates, the set \<open>seen\<close> and the counters.  An error thrown
  by \<open>new URL\<close> ends the function; the counters keep what was added before.\<close>

fun each_link ::
  "jstr \<Rightarrow> Date \<Rightarrow> Date \<Rightarrow> Anchor list \<Rightarrow> Candidate list \<Rightarrow> jstr set \<Rightarrow> Stats
     \<Rightarrow> (error + Candidate list) \<times> Stats" where
  "each_link labelName startDate endDate [] cands seen_urls stats = (Inr cands, stats)"
| "each_link labelName startDate endDate (link # ls) cands seen_urls stats =
     (if \<not> str_includes (href link) (js ''/album/'')
      then each_link labelName startDate endDate ls cands seen_urls stats
      else case album_link link of
        Inl e \<Rightarrow> (Inl e, stats)
      | Inr albumUrl \<Rightarrow>
          if albumUrl \<in> seen_urls then each_link labelName startDate endDate ls cands seen_urls stats
          else
            (case extractListingReleaseDateForLink link albumUrl of
               Inl e \<Rightarrow>
                 each_link labelName startDate endDate ls cands (insert albumUrl seen_urls)
                   (stats \<lparr> parseErrors := parseErrors stats + 1 \<rparr>)
             | Inr None \<Rightarrow>
                 each_link labelName startDate endDate ls cands (insert albumUrl seen_urls) stats
             | Inr (Some rel) \<Rightarrow>
                 if getTime rel \<ge> getTime startDate \<and> getTime rel \<le> getTime endDate
                 then each_link labelName startDate endDate ls
                        (cands @ [\<lparr> cand_album_url = albumUrl, label_name = labelName,
                                   release_date_listing = rel \<rparr>])
                        (insert albumUrl seen_urls) stats
                 else each_link labelName startDate endDate ls cands (insert albumUrl seen_urls) stats))"

definition extractAlbumCandidatesFromListing ::
  "ListingPage \<Rightarrow> jstr \<Rightarrow> Date \<Rightarrow> Date \<Rightarrow> Stats \<Rightarrow> (error + Candidate list \<times> bool) \<times> Stats" where
  "extractAlbumCandidatesFromListing page labelName startDate endDate stats =
     (case each_link labelName startDate endDate (anchors page) [] {} stats of
        (Inl e, stats') \<Rightarrow> (Inl e, stats')
      | (Inr cands, stats') \<Rightarrow>
          (case hasPage2 page of
             Inl e \<Rightarrow> (Inl e, stats')
           | Inr h \<Rightarrow> (Inr (cands, h), stats')))"

section \<open>The run\<close>

text \<open>
  What a run meets outside the repository, as parameters: the network; the two functions
  on label URLs, which rest on the URL parser (\<open>normalizeLabelBase\<close> throws on a URL that
  does not parse); and the documents that cheerio builds, from the HTML of a listing
  page seen from its URL, and from the HTML of an album page.
\<close>

record World =
  wnet :: network
  normalizeLabelBase :: "jstr \<Rightarrow> error + jstr"
  buildLabelPageUrl :: "jstr \<Rightarrow> nat \<Rightarrow> jstr"
  load_listing :: "jstr \<Rightarrow> jstr \<Rightarrow> ListingPage"
  load_album :: "jstr \<Rightarrow> error + AlbumPage"

text \<open>What \<open>fetchHtml\<close> returns, as a string: \<open>!html\<close> holds for \<open>null\<close> and for the empty
  string, so \<open>null\<close> is read as the empty string.\<close>

definition html_text :: "jstr option \<Rightarrow> jstr" where
  "html_text html = (case html of None \<Rightarrow> [] | Some h \<Rightarrow> h)"

record ListState =
  candidates :: "Candidate list"
  seenByLabelUrl :: "jstr set"
  lrun :: RunState

text \<open>\<open>extracted.candidates.forEach\<close>\<close>

fun add_candidates :: "Candidate list \<Rightarrow> ListState \<Rightarrow> ListState" where
  "add_candidates [] st = st"
| "add_candidates (cand # cs) st =
     (let key = cand_album_url cand @ js ''||'' @ label_name cand in
      if key \<in> seenByLabelUrl st then add_candidates cs st
      else add_candidates cs
             (st \<lparr> seenByLabelUrl := insert key (seenByLabelUrl st),
                  candidates := candidates st @ [cand] \<rparr>))"

definition parse_error :: "RunState \<Rightarrow> RunState" where
  "parse_error st = st \<lparr> rstats := (rstats st) \<lparr> parseErrors := parseErrors (rstats st) + 1 \<rparr> \<rparr>"

text \<open>The loop \<open>for (let page = 1; page <= config.max_pages_per_label; page += 1)\<close>, from
  a page on.\<close>

function pages_loop :: "World \<Rightarrow> Config \<Rightarrow> jstr \<Rightarrow> jstr \<Rightarrow> nat \<Rightarrow> ListState \<Rightarrow> ListState" where
  "pages_loop w config labelName normalized page st =
     (if \<not> page \<le> max_pages_per_label config then st
      else if page > 1 \<and> max_pages_per_label config \<le> 1 then st
      else
        let pageUrl = buildLabelPageUrl w normalized page;
            (fetched, r1) = fetchHtml (wnet w) config pageUrl (lrun st);
            html = html_text fetched
        in if html = []
           then pages_loop w config labelName normalized (page + 1) (st \<lparr> lrun := r1 \<rparr>)
           else
             (case extractAlbumCandidatesFromListing (load_listing w html pageUrl) labelName
                     (date_from config) (date_to config) (rstats r1) of
                (Inl e, stats') \<Rightarrow>
                  pages_loop w config labelName normalized (page + 1)
                    (st \<lparr> lrun := parse_error (r1 \<lparr> rstats := stats' \<rparr>) \<rparr>)
              | (Inr (cands, has2), stats') \<Rightarrow>
                  let st' = add_candidates cands (st \<lparr> lrun := r1 \<lparr> rstats := stats' \<rparr> \<rparr>)
                  in if page = 1 \<and> \<not> has2 then st'
                     else pages_loop w config labelName normalized (page + 1) st'))"
  by pat_completeness auto
termination
  by (relation "measure (\<lambda>(w, config, labelName, normalized, page, st).
        Suc (max_pages_per_label config) - page)") auto

declare pages_loop.simps [simp del]

text \<open>The loop over the labels.  An error of \<open>normalizeLabelBase\<close> is not caught: it ends
  the run.\<close>

fun labels_loop :: "World \<Rightarrow> Config \<Rightarrow> Label list \<Rightarrow> ListState \<Rightarrow> error + ListState" where
  "labels_loop w config [] st = Inr st"
| "labels_loop w config (l # ls) st =
     (let st1 = st \<lparr> lrun := (lrun st) \<lparr> rstats := (rstats (lrun st))
                  \<lparr> labelsProcessed := labelsProcessed (rstats (lrun st)) + 1 \<rparr> \<rparr> \<rparr>
      in case normalizeLabelBase w (lurl l) of
           Inl e \<Rightarrow> Inl e
         | Inr normalized \<Rightarrow>
             labels_loop w config ls (pages_loop w config (lname l) normalized 1 st1))"

section \<open>The album phase\<close>

record DetailState =
  alb :: AlbumState
  drequests :: nat
  dsleeps :: "int list"

text \<open>The body of the loop over the candidates.\<close>

definition album_step :: "World \<Rightarrow> Config \<Rightarrow> Candidate \<Rightarrow> DetailState \<Rightarrow> DetailState" where
  "album_step w config cand st =
     (let stats1 = (astats (alb st)) \<lparr> albumsFetched := albumsFetched (astats (alb st)) + 1 \<rparr>;
          (fetched, r) = fetchHtml (wnet w) config (cand_album_url cand)
                           \<lparr> rstats = stats1, requests = drequests st, sleeps = dsleeps st \<rparr>;
          html = html_text fetched;
          st2 = st \<lparr> alb := (alb st) \<lparr> astats := rstats r \<rparr>,
                     drequests := requests r, dsleeps := sleeps r \<rparr>
      in if html = [] then st2
         else case load_album w html of
           Inl e \<Rightarrow>
             st2 \<lparr> alb := (alb st2) \<lparr> astats := (astats (alb st2))
                     \<lparr> parseErrors := parseErrors (astats (alb st2)) + 1 \<rparr> \<rparr> \<rparr>
         | Inr page \<Rightarrow>
             (case parseAlbumDetails page of
                None \<Rightarrow> st2
              | Some det \<Rightarrow> st2 \<lparr> alb := album_filter config cand det (alb st2) \<rparr>))"

fun album_loop :: "World \<Rightarrow> Config \<Rightarrow> Candidate list \<Rightarrow> DetailState \<Rightarrow> DetailState" where
  "album_loop w config [] st = st"
| "album_loop w config (cand # cs) st = album_loop w config cs (album_step w config cand st)"

section \<open>The whole run\<close>

text \<open>What \<open>runQobuzScraper\<close> computes after the configuration and the labels are loaded
  and before the files are written: the records accepted, the records left by the
  deduplication, the lines of the missing-date report and the counters.\<close>

record RunResult =
  out_accepted :: "AcceptedRecord list"
  out_records :: "AcceptedRecord list"
  out_missing :: "jstr list"
  out_stats :: Stats

definition scrape :: "World \<Rightarrow> Config \<Rightarrow> Label list \<Rightarrow> error + RunResult" where
  "scrape w config labels =
     (let run1 = \<lparr> rstats = stats0 \<lparr> labelsTotal := length labels \<rparr>, requests = 0, sleeps = [] \<rparr>
      in case labels_loop w config labels
                \<lparr> candidates = [], seenByLabelUrl = {}, lrun = run1 \<rparr> of
           Inl e \<Rightarrow> Inl e
         | Inr ls \<Rightarrow>
             let stats2 = (rstats (lrun ls)) \<lparr> candidatesTotal := length (candidates ls) \<rparr>;
                 ds = album_loop w config (candidates ls)
                        \<lparr> alb = \<lparr> accepted_list = [], missingRows = [], astats = stats2 \<rparr>,
                          drequests = requests (lrun ls), dsleeps = sleeps (lrun ls) \<rparr>;
                 (dedup_list, stats3) = dedup_phase (accepted_list (alb ds)) (astats (alb ds))
             in Inr \<lparr> out_accepted = accepted_list (alb ds), out_records = dedup_list,
                      out_missing = missingRows (alb ds), out_stats = stats3 \<rparr>)"

text \<open>For the statements: a date inside the configured range, bounds included.\<close>

definition in_range :: "Config \<Rightarrow> Date \<Rightarrow> bool" where
  "in_range config d \<longleftrightarrow>
     getTime (date_from config) \<le> getTime d \<and> getTime d \<le> getTime (date_to config)"

text \<open>
  A run on one label whose listing page has two album links, dated 10 January 2024 and
  15 February 2024, and no link to a second page; every album page is the same, a
  Classical album of 45 minutes released on 10 January 2024.  The network answers every
  request with status 200.
\<close>

definition listing_ex :: ListingPage where
  "listing_ex = \<lparr> anchors =
      [\<lparr> href = js ''/album/a'', album_link = Inr (js ''https://example.com/album/a''),
         chain = [\<lparr> inner_links = Inr [], container_text = js ''Album A'' \<rparr>,
                  \<lparr> inner_links = Inr [js ''https://example.com/album/a''],
                    container_text = js ''Album A Released on Jan 10, 2024'' \<rparr>] \<rparr>,
       \<lparr> href = js ''/album/b'', album_link = Inr (js ''https://example.com/album/b''),
         chain = [\<lparr> inner_links = Inr [], container_text = js ''Album B'' \<rparr>,
                  \<lparr> inner_links = Inr [js ''https://example.com/album/b''],
                    container_text = js ''Album B Released on Feb 15, 2024'' \<rparr>] \<rparr>],
     hasPage2 = Inr False \<rparr>"

definition album_ex :: AlbumPage where
  "album_ex = \<lparr> h1_text = js ''Album A by Someone'',
     blocks = [\<lparr> block_text = js ''Main artists: Someone'', anchor_texts = [js ''Someone''] \<rparr>],
     root_text = js ''Album A by Someone'' @ [10] @ js ''Released on Jan 10, 2024'' @ [10]
       @ js ''Total length: 45:00'' @ [10] @ js ''About the album'' @ [10]
       @ js ''Genre: Classical/Chamber'' @ [10] \<rparr>"

definition world_ex :: World where
  "world_ex = \<lparr> wnet = (\<lambda>k u. Response 200 (Some (js ''<html>''))),
     normalizeLabelBase = (\<lambda>u. Inr u), buildLabelPageUrl = (\<lambda>u page. u),
     load_listing = (\<lambda>html pageUrl. listing_ex), load_album = (\<lambda>html. Inr album_ex) \<rparr>"

definition labels_ex :: "Label list" where
  "labels_ex = [\<lparr> lname = js ''Alpha'', lurl = js ''https://example.com/label/alpha'' \<rparr>]"

definition record_ex :: AcceptedRecord where
  "record_ex = \<lparr> album_title = js ''Album A'', main_artists = js ''Someone'', label = js ''Alpha'',
     album_url = js ''https://example.com/album/a'', release_date = Date 1704844800000 \<rparr>"

definition result_ex :: RunResult where
  "result_ex = \<lparr> out_accepted = [record_ex], out_records = [record_ex], out_missing = [],
     out_stats = stats0 \<lparr> labelsTotal := 1, labelsProcessed := 1, candidatesTotal := 1,
       albumsFetched := 1, accepted := 1 \<rparr> \<rparr>"

chapter \<open>Verification\<close>

section \<open>Strings\<close>

lemma collapse_ws_append:
  "\<not> is_ws x \<Longrightarrow> collapse_ws (a @ x # b) = collapse_ws a @ collapse_ws (x # b)"
proof (induction a rule: collapse_ws.induct)
  case 1
  show ?case by simp
next
  case (2 c cs)
  show ?case
  proof (cases "is_ws c")
    case True
    have "dropWhile is_ws (cs @ x # b) = dropWhile is_ws cs @ x # b"
      using 2(3) by (induction cs) auto
    with True 2 show ?thesis by simp
  next
    case False
    with 2 show ?thesis by simp
  qed
qed

lemma collapse_ws_id: "list_all (\<lambda>c. \<not> is_ws c) s \<Longrightarrow> collapse_ws s = s"
  by (induction s) auto

lemma dropWhile_append_stop:
  "\<not> P x \<Longrightarrow> dropWhile P (a @ x # b) = dropWhile P a @ x # b"
  by (induction a) auto

lemma trim_id: "s \<noteq> [] \<Longrightarrow> \<not> is_ws (hd s) \<Longrightarrow> \<not> is_ws (last s) \<Longrightarrow> trim s = s"
proof -
  assume a: "s \<noteq> []" "\<not> is_ws (hd s)" "\<not> is_ws (last s)"
  then have "trimStart s = s" by (cases s) (simp_all add: trimStart_def)
  moreover have "trimEnd s = s"
    using a by (cases "rev s") (simp_all add: trimEnd_def last_rev [symmetric] hd_rev)
  ultimately show ?thesis by (simp add: trim_def)
qed

lemma collapse_ws_word: "list_all (\<lambda>c. \<not> is_ws c) w \<Longrightarrow> collapse_ws (w @ t) = w @ collapse_ws t"
  by (induction w) auto

lemma collapse_ws_run: "list_all is_ws t \<Longrightarrow> t \<noteq> [] \<Longrightarrow> collapse_ws t = [32]"
proof -
  assume a: "list_all is_ws t" "t \<noteq> []"
  then obtain c cs where t: "t = c # cs" by (cases t) auto
  with a have d: "dropWhile is_ws cs = []" by (simp add: list_all_iff dropWhile_eq_Nil_conv)
  from a t have "is_ws c" by simp
  then have "collapse_ws (c # cs) = 32 # collapse_ws (dropWhile is_ws cs)" by simp
  then show ?thesis by (simp only: t d collapse_ws.simps(1))
qed

lemma trimEnd_word:
  assumes "list_all is_ws t" "w \<noteq> []" "\<not> is_ws (last w)"
  shows "trimEnd (w @ t) = w"
proof -
  have "dropWhile is_ws (rev t @ rev w) = dropWhile is_ws (rev w)"
    using assms(1) by (intro dropWhile_append2) (simp add: list_all_iff)
  also have "\<dots> = rev w"
    using assms(2,3) by (cases "rev w") (simp_all add: last_rev [symmetric] hd_rev)
  finally show ?thesis by (simp add: trimEnd_def)
qed

lemma trimEnd_append:
  assumes "x \<in> set b" "\<not> is_ws x"
  shows "trimEnd (a @ b) = a @ trimEnd b"
proof -
  have "dropWhile is_ws (rev b @ rev a) = dropWhile is_ws (rev b) @ rev a"
    using assms by (intro dropWhile_append1 [of x]) auto
  then show ?thesis by (simp add: trimEnd_def)
qed

lemma trimEnd_hd:
  assumes "b \<noteq> []" "\<not> is_ws (hd b)"
  shows "trimEnd b \<noteq> [] \<and> hd (trimEnd b) = hd b"
proof -
  obtain c cs where b: "b = c # cs" using assms(1) by (cases b) auto
  with assms(2) have c: "\<not> is_ws c" by simp
  have "trimEnd ([c] @ cs) = [c] @ trimEnd cs \<or> trimEnd ([c] @ cs) = [c]"
  proof (cases "\<exists>x \<in> set cs. \<not> is_ws x")
    case True
    then obtain x where "x \<in> set cs" "\<not> is_ws x" by auto
    then show ?thesis using trimEnd_append [of x cs "[c]"] by simp
  next
    case False
    then have "list_all is_ws cs" by (simp add: list_all_iff)
    then show ?thesis using trimEnd_word [of cs "[c]"] c by simp
  qed
  then show ?thesis by (auto simp: b)
qed

lemma trim_blank: "dropWhile is_ws s = [] \<Longrightarrow> trim s = []"
  by (simp only: trim_def trimStart_def trimEnd_def rev.simps dropWhile.simps)

lemma trim_ends:
  assumes "trim s \<noteq> []"
  shows "\<not> is_ws (hd (trim s))" and "\<not> is_ws (last (trim s))"
proof -
  let ?b = "trimStart s"
  from assms have b: "?b \<noteq> []" by (auto simp: trim_def trimEnd_def)
  then have h: "\<not> is_ws (hd ?b)" unfolding trimStart_def by (rule hd_dropWhile)
  from trimEnd_hd [OF b h] h show "\<not> is_ws (hd (trim s))" by (simp add: trim_def)
  from assms have r: "dropWhile is_ws (rev ?b) \<noteq> []" by (simp add: trim_def trimEnd_def)
  then have "\<not> is_ws (hd (dropWhile is_ws (rev ?b)))" by (rule hd_dropWhile)
  with r show "\<not> is_ws (last (trim s))" by (simp add: trim_def trimEnd_def last_rev)
qed

lemma trim_trim: "trim (trim s) = trim s"
proof (cases "trim s = []")
  case True
  have "trim [] = []" by (simp add: trim_def trimStart_def trimEnd_def)
  then show ?thesis by (simp only: True)
next
  case False
  then show ?thesis using trim_ends [OF False] by (rule trim_id)
qed

section \<open>The calendar\<close>

text \<open>The year computed by the search is the year of ECMA-262: the one whose days
  include the day number.  A day number reads back as a valid date, and a valid date reads
  back as itself.\<close>

lemma DayFromYear_1970: "DayFromYear 1970 = 0"
  by (simp add: DayFromYear_def)

lemma DayFromYear_mono_nat: "DayFromYear y < DayFromYear (y + int (Suc n))"
proof (induction n)
  case 0
  show ?case using DayFromYear_less [of "y + 1"] by simp
next
  case (Suc n)
  have "y + int (Suc (Suc n)) - 1 = y + int (Suc n)" by simp
  then have "DayFromYear (y + int (Suc n)) < DayFromYear (y + int (Suc (Suc n)))"
    using DayFromYear_less [of "y + int (Suc (Suc n))"] by (simp only:)
  with Suc show ?case by linarith
qed

lemma DayFromYear_strict_mono: "y < z \<Longrightarrow> DayFromYear y < DayFromYear z"
proof -
  assume "y < z"
  then have "z = y + int (Suc (nat (z - y - 1)))" by simp
  then show ?thesis using DayFromYear_mono_nat [of y "nat (z - y - 1)"] by (simp only:)
qed

lemma DayFromYear_mono: "y \<le> z \<Longrightarrow> DayFromYear y \<le> DayFromYear z"
  using DayFromYear_strict_mono [of y z] by (cases "y = z") auto

lemma DayFromYear_lower_after: "1970 \<le> y \<Longrightarrow> 365 * (y - 1970) \<le> DayFromYear y"
proof (induction y rule: int_ge_induct)
  case base
  show ?case by (simp add: DayFromYear_1970)
next
  case (step i)
  then show ?case
    using DayFromYear_step [of i] DaysInYear_cases [of i] by auto
qed

lemma DayFromYear_lower_before: "y \<le> 1970 \<Longrightarrow> 366 * (y - 1970) \<le> DayFromYear y"
proof (induction y rule: int_le_induct)
  case base
  show ?case by (simp add: DayFromYear_1970)
next
  case (step i)
  then show ?case
    using DayFromYear_step [of "i - 1"] DaysInYear_cases [of "i - 1"] by auto
qed

lemma start_above: "d < DayFromYear (1970 + (if 0 \<le> d then d div 365 else d div 366) + 1)"
proof (cases "0 \<le> d")
  case True
  have "d mod 365 < 365" by simp
  moreover have "365 * (d div 365 + 1) = 365 * (d div 365) + 365" by simp
  ultimately have "d < 365 * (d div 365 + 1)"
    using mult_div_mod_eq [of 365 d] by linarith
  moreover have "365 * (1970 + d div 365 + 1 - 1970) \<le> DayFromYear (1970 + d div 365 + 1)"
    using True by (intro DayFromYear_lower_after) (simp add: pos_imp_zdiv_nonneg_iff)
  ultimately show ?thesis using True by simp
next
  case False
  then have neg: "d div 366 < 0" by (simp add: div_neg_pos_less0)
  have "d mod 366 < 366" by simp
  moreover have "366 * (d div 366 + 1) = 366 * (d div 366) + 366" by simp
  ultimately have "d < 366 * (d div 366 + 1)"
    using mult_div_mod_eq [of 366 d] by linarith
  moreover have "366 * (1970 + d div 366 + 1 - 1970) \<le> DayFromYear (1970 + d div 366 + 1)"
    using neg by (intro DayFromYear_lower_before) simp
  ultimately show ?thesis using False by simp
qed

lemma year_down_bounds:
  "d < DayFromYear (y + 1) \<Longrightarrow>
     DayFromYear (year_down y d) \<le> d \<and> d < DayFromYear (year_down y d + 1)"
proof (induction y d rule: year_down.induct)
  case (1 y d)
  show ?case
  proof (cases "DayFromYear y \<le> d")
    case True
    with 1 show ?thesis by (simp add: year_down.simps [of y d])
  next
    case False
    then have "d < DayFromYear (y - 1 + 1)" by simp
    with 1 False show ?thesis by (simp add: year_down.simps [of y d])
  qed
qed

lemma YearFromDay_bounds:
  "DayFromYear (YearFromDay d) \<le> d \<and> d < DayFromYear (YearFromDay d + 1)"
  unfolding YearFromDay_def using start_above by (rule year_down_bounds)

lemma YearFromDay_unique:
  assumes "DayFromYear y \<le> d" "d < DayFromYear (y + 1)"
  shows "YearFromDay d = y"
proof (rule ccontr)
  assume ne: "YearFromDay d \<noteq> y"
  let ?z = "YearFromDay d"
  from YearFromDay_bounds [of d] have b: "DayFromYear ?z \<le> d" "d < DayFromYear (?z + 1)" by auto
  from ne consider "?z < y" | "y < ?z" by linarith
  then show False
  proof cases
    case 1
    then have "DayFromYear (?z + 1) \<le> DayFromYear y" by (intro DayFromYear_mono) simp
    with b assms show False by linarith
  next
    case 2
    then have "DayFromYear (y + 1) \<le> DayFromYear ?z" by (intro DayFromYear_mono) simp
    with b assms show False by linarith
  qed
qed


lemma InLeapYear_iff: "InLeapYear y \<longleftrightarrow> is_leap_year y"
proof -
  have "y mod 400 = 0 \<Longrightarrow> y mod 100 = 0" "y mod 100 = 0 \<Longrightarrow> y mod 4 = 0"
    using dvd_trans [of 100 400 y] dvd_trans [of 4 100 y]
    by (simp_all add: mod_eq_0_iff_dvd)
  then show ?thesis by (auto simp: InLeapYear_def DaysInYear_def is_leap_year_def)
qed

lemma DaysInYear_leap: "DaysInYear y = (if is_leap_year y then 366 else 365)"
  using InLeapYear_iff [of y] DaysInYear_cases [of y] by (auto simp: InLeapYear_def)

lemma DayWithinYear_bounds:
  "0 \<le> DayWithinYear n \<and> DayWithinYear n < DaysInYear (YearFromDay n)"
  using YearFromDay_bounds [of n] DayFromYear_step [of "YearFromDay n"]
  by (simp add: DayWithinYear_def)

lemma month_of_day_valid:
  assumes "0 \<le> w" "w < (if leap then 366 else 365)"
  shows "0 \<le> month_of_day leap w \<and> month_of_day leap w \<le> 11
     \<and> month_start leap (month_of_day leap w) \<le> w
     \<and> w - month_start leap (month_of_day leap w)
           < (if month_of_day leap w = 1 then (if leap then 29 else 28)
              else if month_of_day leap w = 3 \<or> month_of_day leap w = 5
                   \<or> month_of_day leap w = 8 \<or> month_of_day leap w = 10 then 30 else 31)"
  using assms by (cases leap) (simp_all add: month_of_day_def month_start_def Let_def)

lemma decode_valid:
  "valid_date (YearFromDay n) (MonthFromDay n + 1) (DateFromDay n)"
proof -
  let ?y = "YearFromDay n"
  let ?leap = "InLeapYear ?y"
  have w: "0 \<le> DayWithinYear n" "DayWithinYear n < (if ?leap then 366 else 365)"
    using DayWithinYear_bounds [of n] DaysInYear_cases [of ?y] by (auto simp: InLeapYear_def)
  from month_of_day_valid [OF w]
  show ?thesis
    unfolding valid_date_def days_in_month_def MonthFromDay_def DateFromDay_def
      InLeapYear_iff [symmetric]
    by auto
qed

lemma month_encode:
  assumes "0 \<le> m" "m \<le> 11" "1 \<le> d"
    "d \<le> (if m = 1 then (if leap then 29 else 28)
            else if m = 3 \<or> m = 5 \<or> m = 8 \<or> m = 10 then 30 else 31)"
  shows "month_start leap m + d - 1 < (if leap then 366 else 365)
     \<and> 0 \<le> month_start leap m + d - 1
     \<and> month_of_day leap (month_start leap m + d - 1) = m"
proof -
  from assms(1,2) have "m = 0 \<or> m = 1 \<or> m = 2 \<or> m = 3 \<or> m = 4 \<or> m = 5 \<or> m = 6
    \<or> m = 7 \<or> m = 8 \<or> m = 9 \<or> m = 10 \<or> m = 11" by arith
  then show ?thesis
    using assms(3,4)
    by (elim disjE) (cases leap; simp add: month_of_day_def month_start_def)+
qed

lemma encode_decode:
  assumes "valid_date y m d"
  shows "YearFromDay (MakeDay y (m - 1) d) = y
     \<and> MonthFromDay (MakeDay y (m - 1) d) = m - 1
     \<and> DateFromDay (MakeDay y (m - 1) d) = d"
proof -
  let ?leap = "InLeapYear y"
  let ?w = "month_start ?leap (m - 1) + d - 1"
  from assms have m: "0 \<le> m - 1" "m - 1 \<le> 11" and d: "1 \<le> d"
    by (auto simp: valid_date_def)
  from assms have dm: "d \<le> (if m - 1 = 1 then (if ?leap then 29 else 28)
            else if m - 1 = 3 \<or> m - 1 = 5 \<or> m - 1 = 8 \<or> m - 1 = 10 then 30 else 31)"
    by (auto simp: valid_date_def days_in_month_def InLeapYear_iff)
  have md: "(m - 1) div 12 = 0" "(m - 1) mod 12 = m - 1" using m by auto
  have n: "MakeDay y (m - 1) d = DayFromYear y + ?w"
    by (simp add: MakeDay_def md Let_def)
  from month_encode [OF m d dm]
  have w: "?w < (if ?leap then 366 else 365)" "0 \<le> ?w" "month_of_day ?leap ?w = m - 1"
    by auto
  have "DaysInYear y = (if ?leap then 366 else 365)"
    using DaysInYear_cases [of y] by (auto simp: InLeapYear_def)
  with w have yr: "YearFromDay (DayFromYear y + ?w) = y"
    by (intro YearFromDay_unique) (auto simp: DayFromYear_step)
  have dw: "DayWithinYear (DayFromYear y + ?w) = ?w" by (simp add: DayWithinYear_def yr)
  show ?thesis
    unfolding n by (simp add: yr MonthFromDay_def DateFromDay_def dw w)
qed

section \<open>The configuration's dates\<close>

lemma Date_UTC_day: "getTime (Date_UTC y m d) div msPerDay
    = MakeDay (if 0 \<le> y \<and> y \<le> 99 then 1900 + y else y) m d"
  by (simp add: Date_UTC_def msPerDay_def Let_def)

lemma digit_not_ws: "is_digit a \<Longrightarrow> \<not> is_ws a"
  by (auto simp: is_digit_def is_ws_def)

lemma trim_pl:
  assumes "is_digit a" "is_digit h"
  shows "trim (a # b # p # c # d # q # e # f # g # [h]) = a # b # p # c # d # q # e # f # g # [h]"
  using assms by (simp add: trim_def trimStart_def trimEnd_def digit_not_ws)

lemma rx_pl_date_match:
  assumes "is_digit a" "is_digit b" "is_digit c" "is_digit d"
    "is_digit e" "is_digit f" "is_digit g" "is_digit h"
  shows "rx_first rx_pl_date [a, b, 46, c, d, 46, e, f, g, h] = Some ([a, b], [c, d], [e, f, g, h])"
  using assms
  by (simp add: rx_first_def rx_pl_date_def rx_then_def rx_greedy_def run_top_def rx_lit_def
      rx_end_def rx_ret_def js_def is_digit_def)

lemma Number2: "Number [a, b] = 10 * (a - 48) + (b - 48)"
  by (simp add: Number_def)

lemma Number4: "Number [e, f, g, h] = 1000 * (e - 48) + 100 * (f - 48) + 10 * (g - 48) + (h - 48)"
  by (simp add: Number_def)


lemma String_digits_small: "x < 10 \<Longrightarrow> String_digits x = [48 + x]"
  by (simp add: String_digits.simps [of x])

lemma String_digits_snoc:
  assumes "1 \<le> q" "0 \<le> r" "r < 10"
  shows "String_digits (10 * q + r) = String_digits q @ [48 + r]"
proof -
  have "(10 * q + r) div 10 = q" "(10 * q + r) mod 10 = r" using assms by auto
  moreover have "\<not> 10 * q + r < 10" using assms by linarith
  ultimately show ?thesis by (simp add: String_digits.simps [of "10 * q + r"])
qed

lemma pad2_val:
  assumes "0 \<le> p" "p < 10" "0 \<le> q" "q < 10"
  shows "padStart2 (String_int (10 * p + q)) = [48 + p, 48 + q]"
proof (cases "p = 0")
  case True
  with assms show ?thesis
    by (simp add: String_int_def String_digits_small padStart2_def)
next
  case False
  with assms have "1 \<le> p" by simp
  then have "String_digits (10 * p + q) = [48 + p, 48 + q]"
    using assms by (simp only: String_digits_snoc String_digits_small) simp
  moreover have "\<not> 10 * p + q < 0" using assms by linarith
  ultimately show ?thesis by (simp add: String_int_def padStart2_def)
qed

lemma pad2_digits:
  assumes "is_digit a" "is_digit b"
  shows "padStart2 (String_int (10 * (a - 48) + (b - 48))) = [a, b]"
  using pad2_val [of "a - 48" "b - 48"] assms by (simp add: is_digit_def)

lemma year_val:
  assumes "1 \<le> p" "p < 10" "0 \<le> q" "q < 10" "0 \<le> r" "r < 10" "0 \<le> t" "t < 10"
  shows "String_int (1000 * p + 100 * q + 10 * r + t) = [48 + p, 48 + q, 48 + r, 48 + t]"
proof -
  have "String_digits (10 * p + q) = [48 + p, 48 + q]"
    using assms by (simp only: String_digits_snoc String_digits_small) simp
  moreover have "1 \<le> 10 * p + q" using assms by linarith
  ultimately have "String_digits (10 * (10 * p + q) + r) = [48 + p, 48 + q, 48 + r]"
    using assms by (simp only: String_digits_snoc) simp
  moreover have "1 \<le> 10 * (10 * p + q) + r" using assms by (simp add: algebra_simps)
  ultimately have "String_digits (10 * (10 * (10 * p + q) + r) + t) = [48 + p, 48 + q, 48 + r, 48 + t]"
    using assms by (simp only: String_digits_snoc) simp
  moreover have "10 * (10 * (10 * p + q) + r) + t = 1000 * p + 100 * q + 10 * r + t" by simp
  moreover have "\<not> 1000 * p + 100 * q + 10 * r + t < 0" using assms by linarith
  ultimately show ?thesis by (simp only: String_int_def if_False)
qed

lemma year_digits:
  assumes "is_digit e" "is_digit f" "is_digit g" "is_digit h" "e \<noteq> 48"
  shows "String_int (1000 * (e - 48) + 100 * (f - 48) + 10 * (g - 48) + (h - 48)) = [e, f, g, h]"
  using year_val [of "e - 48" "f - 48" "g - 48" "h - 48"] assms by (simp add: is_digit_def)

lemma parsePlDate_digits:
  assumes "is_digit a" "is_digit b" "is_digit c" "is_digit d"
    "is_digit e" "is_digit f" "is_digit g" "is_digit h"
  shows "parsePlDate [a, b, 46, c, d, 46, e, f, g, h] =
     (let day = Number [a, b]; month = Number [c, d]; year = Number [e, f, g, h];
          dt = Date_UTC year (month - 1) day
      in if getUTCFullYear dt \<noteq> year \<or> getUTCMonth dt \<noteq> month - 1 \<or> getUTCDate dt \<noteq> day
         then Inl INVALID_DATE_FORMAT else Inr dt)"
  using assms by (simp add: parsePlDate_def trim_pl rx_pl_date_match Let_def)

lemma reads_back_valid:
  assumes "getUTCFullYear dt = y" "getUTCMonth dt = m - 1" "getUTCDate dt = d"
  shows "valid_date y m d"
  using decode_valid [of "getTime dt div msPerDay"] assms
  by (simp add: getUTCFullYear_def getUTCMonth_def getUTCDate_def)

lemma valid_reads_back:
  assumes "valid_date y m d" "100 \<le> y"
  shows "getUTCFullYear (Date_UTC y (m - 1) d) = y \<and> getUTCMonth (Date_UTC y (m - 1) d) = m - 1
     \<and> getUTCDate (Date_UTC y (m - 1) d) = d"
  using encode_decode [OF assms(1)] assms(2)
  by (simp add: getUTCFullYear_def getUTCMonth_def getUTCDate_def Date_UTC_day)

text \<open>
  Claim C8, amended.  Take any string in the format DD.MM.YYYY: eight decimal digits and two
  dots.  If it denotes a valid date of the calendar and its year is at least 1000, then
  \<open>parsePlDate\<close> returns that date, \<open>formatPlDate\<close> of the date is the string again,
  and parsing the formatted string returns the same date.  If it does not denote a valid
  date (as 31.02.2024), \<open>parsePlDate\<close> throws \<open>INVALID_DATE_FORMAT\<close>.
\<close>

theorem pl_date_round_trip:
  assumes "is_digit a" "is_digit b" "is_digit c" "is_digit d"
    "is_digit e" "is_digit f" "is_digit g" "is_digit h"
  shows "(valid_date (Number [e, f, g, h]) (Number [c, d]) (Number [a, b]) \<and> 1000 \<le> Number [e, f, g, h]
      \<longrightarrow> parsePlDate [a, b, 46, c, d, 46, e, f, g, h]
            = Inr (Date_UTC (Number [e, f, g, h]) (Number [c, d] - 1) (Number [a, b]))
        \<and> formatPlDate (Date_UTC (Number [e, f, g, h]) (Number [c, d] - 1) (Number [a, b]))
            = [a, b, 46, c, d, 46, e, f, g, h]
        \<and> parsePlDate (formatPlDate (Date_UTC (Number [e, f, g, h]) (Number [c, d] - 1) (Number [a, b])))
            = Inr (Date_UTC (Number [e, f, g, h]) (Number [c, d] - 1) (Number [a, b])))
    \<and> (\<not> valid_date (Number [e, f, g, h]) (Number [c, d]) (Number [a, b])
      \<longrightarrow> parsePlDate [a, b, 46, c, d, 46, e, f, g, h] = Inl INVALID_DATE_FORMAT)"
proof (intro conjI impI)
  let ?y = "Number [e, f, g, h]" and ?m = "Number [c, d]" and ?d = "Number [a, b]"
  let ?s = "[a, b, 46, c, d, 46, e, f, g, h]"
  let ?dt = "Date_UTC ?y (?m - 1) ?d"
  {
    assume v: "valid_date ?y ?m ?d \<and> 1000 \<le> ?y"
    then have rb: "getUTCFullYear ?dt = ?y" "getUTCMonth ?dt = ?m - 1" "getUTCDate ?dt = ?d"
      using valid_reads_back [of ?y ?m ?d] by auto
    show p: "parsePlDate ?s = Inr ?dt"
      using assms rb by (simp add: parsePlDate_digits Let_def)
    from v assms have "e \<noteq> 48" by (auto simp: Number4 is_digit_def)
    then have "String_int ?y = [e, f, g, h]"
      using assms unfolding Number4 by (intro year_digits)
    moreover have "padStart2 (String_int ?d) = [a, b]"
      using assms unfolding Number2 by (intro pad2_digits)
    moreover have "padStart2 (String_int ?m) = [c, d]"
      using assms unfolding Number2 by (intro pad2_digits)
    moreover have "?m - 1 + 1 = ?m" by simp
    ultimately show f: "formatPlDate ?dt = ?s"
      by (simp only: formatPlDate_def rb Let_def js_def) simp
    show "parsePlDate (formatPlDate ?dt) = Inr ?dt" by (simp only: f p)
  }
  {
    assume nv: "\<not> valid_date ?y ?m ?d"
    have "\<not> (getUTCFullYear ?dt = ?y \<and> getUTCMonth ?dt = ?m - 1 \<and> getUTCDate ?dt = ?d)"
      using nv reads_back_valid [of ?dt ?y ?m ?d] by blast
    then show "parsePlDate ?s = Inl INVALID_DATE_FORMAT"
      using assms by (auto simp: parsePlDate_digits Let_def)
  }
qed


lemma ex_dates:
  "Date_UTC 2024 1 29 = Date 1709164800000"
  "valid_date 2024 2 29" "\<not> valid_date 2024 2 31"
  by code_simp+

text \<open>The theorem at 29.02.2024, which is valid, and at 31.02.2024, which is not.\<close>

theorem pl_date_round_trip_witness:
  "valid_date 2024 2 29
   \<and> parsePlDate (js ''29.02.2024'') = Inr (Date 1709164800000)
   \<and> formatPlDate (Date 1709164800000) = js ''29.02.2024''
   \<and> parsePlDate (formatPlDate (Date 1709164800000)) = Inr (Date 1709164800000)
   \<and> \<not> valid_date 2024 2 31
   \<and> parsePlDate (js ''31.02.2024'') = Inl INVALID_DATE_FORMAT"
  using pl_date_round_trip [of 50 57 48 50 50 48 50 52]
    pl_date_round_trip [of 51 49 48 50 50 48 50 52] ex_dates
  by (simp add: is_digit_def Number_def js_def)

text \<open>
  The claim as it was stated, for every valid date in the format, fails below the year
  1000.  The year is formatted without padding: 01.01.0500 is parsed, formatted as
  01.01.500, and that string is not in the format any more.  And \<open>Date.UTC\<close> reads a
  year from 0 to 99 as 1900 to 1999, so the valid date 01.01.0050 is rejected.
\<close>

theorem pl_date_round_trip_counterexample:
  "valid_date 500 1 1
   \<and> parsePlDate (js ''01.01.0500'') = Inr (Date (- 46388678400000))
   \<and> formatPlDate (Date (- 46388678400000)) = js ''01.01.500''
   \<and> js ''01.01.500'' \<noteq> js ''01.01.0500''
   \<and> parsePlDate (js ''01.01.500'') = Inl INVALID_DATE_FORMAT
   \<and> valid_date 50 1 1
   \<and> parsePlDate (js ''01.01.0050'') = Inl INVALID_DATE_FORMAT"
  by code_simp

section \<open>The release-date extractor\<close>

subsection \<open>The phrase\<close>

lemma collapse_ws_last:
  "s \<noteq> [] \<Longrightarrow> \<not> is_word (last s) \<Longrightarrow>
     collapse_ws s \<noteq> [] \<and> \<not> is_word (last (collapse_ws s))"
proof (induction s rule: collapse_ws.induct)
  case 1
  then show ?case by simp
next
  case (2 c cs)
  show ?case
  proof (cases "is_ws c")
    case True
    show ?thesis
    proof (cases "dropWhile is_ws cs = []")
      case e: True
      have "collapse_ws (c # cs) = [32]"
        using True by (simp only: collapse_ws.simps e if_True)
      then show ?thesis
        by (simp add: is_word_def is_alpha_def is_upper_def is_lower_def is_digit_def)
    next
      case ne: False
      then have "cs \<noteq> []" by auto
      have "last (dropWhile is_ws cs) = last cs"
        using ne by (metis takeWhile_dropWhile_id last_appendR)
      with 2 True ne \<open>cs \<noteq> []\<close> show ?thesis by simp
    qed
  next
    case False
    with 2 show ?thesis by (cases "cs = []") simp_all
  qed
qed

lemma collapse_phrase: "collapse_ws (phrase @ suf) = phrase @ collapse_ws suf"
  by (simp add: phrase_def js_def is_ws_def)

lemma normalized_phrase:
  "trim (collapse_ws (pre @ phrase @ suf))
     = trimStart (collapse_ws pre) @ phrase @ trimEnd (collapse_ws suf)"
proof -
  obtain r where r: "phrase = 82 # r" by (simp add: phrase_def js_def)
  have x: "\<not> is_ws 82" by (simp add: is_ws_def)
  obtain q where q: "rev phrase = 52 # q" by (simp add: phrase_def js_def)
  have y: "\<not> is_ws 52" by (simp add: is_ws_def)
  have "collapse_ws (pre @ phrase @ suf) = collapse_ws pre @ collapse_ws (phrase @ suf)"
    using collapse_ws_append [OF x, of pre "r @ suf"] by (simp add: r)
  then have c: "collapse_ws (pre @ phrase @ suf) = collapse_ws pre @ phrase @ collapse_ws suf"
    by (simp add: collapse_phrase)
  have t1: "trimStart (collapse_ws pre @ phrase @ collapse_ws suf)
      = trimStart (collapse_ws pre) @ phrase @ collapse_ws suf"
    using dropWhile_append_stop [of is_ws 82 "collapse_ws pre" "r @ collapse_ws suf", OF x]
    by (simp add: trimStart_def r)
  have "dropWhile is_ws (rev (collapse_ws suf) @ 52 # q @ rev (trimStart (collapse_ws pre)))
      = dropWhile is_ws (rev (collapse_ws suf)) @ 52 # q @ rev (trimStart (collapse_ws pre))"
    using y by (rule dropWhile_append_stop)
  then have t2: "trimEnd (trimStart (collapse_ws pre) @ phrase @ collapse_ws suf)
      = trimStart (collapse_ws pre) @ phrase @ trimEnd (collapse_ws suf)"
    using q by (simp add: trimEnd_def) (metis rev_rev_ident rev.simps(2) rev_append append_assoc append_Cons append_Nil)
  show ?thesis by (simp add: trim_def c t1 t2)
qed

lemma rx_then_unit: "p s = [(a, r)] \<Longrightarrow> rx_then p f s = f a r"
  by (simp add: rx_then_def)

lemma greedy_d4: "rx_greedy is_digit 4 (Some 4) (50 # 48 # 50 # 52 # b) = [([50, 48, 50, 52], b)]"
  by (simp add: rx_greedy_def run_top_def is_digit_def)

lemma greedy_d1: "rx_greedy is_digit 1 (Some 2) (51 # 44 # 32 # 50 # 48 # 50 # 52 # b)
      = [([51], 44 # 32 # 50 # 48 # 50 # 52 # b)]"
  by (simp add: rx_greedy_def run_top_def is_digit_def)

lemma greedy_may: "rx_greedy is_alpha_dot 1 None (77 # 97 # 121 # 32 # 51 # 44 # 32 # 50 # 48 # 50 # 52 # b)
      = [([77, 97, 121], 32 # 51 # 44 # 32 # 50 # 48 # 50 # 52 # b),
         ([77, 97], 121 # 32 # 51 # 44 # 32 # 50 # 48 # 50 # 52 # b),
         ([77], 97 # 121 # 32 # 51 # 44 # 32 # 50 # 48 # 50 # 52 # b)]"
  by (simp add: rx_greedy_def run_top_def is_alpha_dot_def is_alpha_def is_upper_def
        is_lower_def upt_rec [of 1] upt_rec [of 2] upt_rec [of 3])

lemma lit_space: "rx_lit (js '' '') (32 # r) = [([32], r)]"
  by (simp add: rx_lit_def js_def)

lemma lit_space_no: "c \<noteq> 32 \<Longrightarrow> rx_lit (js '' '') (c # r) = []"
  by (simp add: rx_lit_def js_def)

lemma lit_comma: "rx_lit (js '', '') (44 # 32 # r) = [([44, 32], r)]"
  by (simp add: rx_lit_def js_def)

lemma rx_cat_single:
  "p s = [(a, r)] \<Longrightarrow> q r = [(b, t)] \<Longrightarrow> rx_cat p q s = [(a @ b, t)]"
  by (simp add: rx_cat_def rx_then_def rx_ret_def)

lemma rx_cat_first_empty: "p s = [] \<Longrightarrow> rx_cat p q s = []"
  by (simp add: rx_cat_def rx_then_def)

lemma rx_cat_three:
  "p s = [(a1, r1), (a2, r2), (a3, r3)] \<Longrightarrow> q r1 = [(b, t)] \<Longrightarrow> q r2 = [] \<Longrightarrow> q r3 = []
     \<Longrightarrow> rx_cat p q s = [(a1 @ b, t)]"
  by (simp add: rx_cat_def rx_then_def rx_ret_def)

lemma month_group_may:
  "rx_month_group (77 # 97 # 121 # 32 # 51 # 44 # 32 # 50 # 48 # 50 # 52 # b)
     = [(js ''May 3, 2024'', b)]"
proof -
  let ?t3 = "rx_cat (rx_lit (js '', '')) (rx_greedy is_digit 4 (Some 4))"
  let ?t2 = "rx_cat (rx_greedy is_digit 1 (Some 2)) ?t3"
  let ?t1 = "rx_cat (rx_lit (js '' '')) ?t2"
  have t3: "?t3 (44 # 32 # 50 # 48 # 50 # 52 # b) = [([44, 32] @ [50, 48, 50, 52], b)]"
    using lit_comma greedy_d4 by (rule rx_cat_single)
  have t2: "?t2 (51 # 44 # 32 # 50 # 48 # 50 # 52 # b) = [([51] @ [44, 32] @ [50, 48, 50, 52], b)]"
    using greedy_d1 t3 by (rule rx_cat_single)
  have t1: "?t1 (32 # 51 # 44 # 32 # 50 # 48 # 50 # 52 # b)
      = [([32] @ [51] @ [44, 32] @ [50, 48, 50, 52], b)]"
    using lit_space t2 by (rule rx_cat_single)
  have n1: "?t1 (121 # r) = []" for r
    by (rule rx_cat_first_empty) (simp add: lit_space_no)
  have n2: "?t1 (97 # r) = []" for r
    by (rule rx_cat_first_empty) (simp add: lit_space_no)
  have "rx_cat (rx_greedy is_alpha_dot 1 None) ?t1
      (77 # 97 # 121 # 32 # 51 # 44 # 32 # 50 # 48 # 50 # 52 # b)
      = [([77, 97, 121] @ [32] @ [51] @ [44, 32] @ [50, 48, 50, 52], b)]"
    using greedy_may t1 n1 n2 by (rule rx_cat_three)
  then show ?thesis by (simp add: rx_month_group_def js_def)
qed

lemma wb_at_R: "\<not> word_before pv \<Longrightarrow> rx_wb pv (82 # r) = [((), 82 # r)]"
  by (simp add: rx_wb_def word_next_def is_word_def is_alpha_def is_upper_def)

lemma lit_released_on:
  "rx_lit_i (js ''Released on '') (phrase @ b)
     = [(js ''Released on '', 77 # 97 # 121 # 32 # 51 # 44 # 32 # 50 # 48 # 50 # 52 # b)]"
  by (simp add: rx_lit_i_def phrase_def js_def canonicalize_def is_lower_def)

lemma released_on_at_phrase:
  assumes "\<not> word_before pv"
  shows "rx_search (rx_released_on rx_month_group) pv (phrase @ b) = Some (js ''May 3, 2024'')"
proof -
  obtain r where r: "phrase @ b = 82 # r" by (simp add: phrase_def js_def)
  have "rx_released_on rx_month_group pv (phrase @ b)
      = rx_then (rx_lit_i (js ''Released on '')) (\<lambda>_. rx_month_group) (phrase @ b)"
    unfolding rx_released_on_def using wb_at_R [OF assms, of r]
    by (simp only: r rx_then_unit)
  also have "\<dots> = rx_month_group (77 # 97 # 121 # 32 # 51 # 44 # 32 # 50 # 48 # 50 # 52 # b)"
    using lit_released_on [of b] by (rule rx_then_unit)
  also have "\<dots> = [(js ''May 3, 2024'', b)]" by (rule month_group_may)
  finally show ?thesis by (simp add: r rx_first_def)
qed

lemma may_3: "parseEnglishMonthDate (js ''May 3, 2024'') = Some (Date 1714694400000)"
  by code_simp

text \<open>A search through \<open>a @ r\<close> stops at the first position of \<open>a\<close> where the expression
  matches, or goes on in \<open>r\<close>.\<close>

lemma rx_search_prefix:
  "(\<exists>i<length a.
       rx_first (p (if i = 0 then prev else Some ((a @ r) ! (i - 1)))) (drop i (a @ r)) \<noteq> None
       \<and> rx_search p prev (a @ r)
           = rx_first (p (if i = 0 then prev else Some ((a @ r) ! (i - 1)))) (drop i (a @ r)))
   \<or> rx_search p prev (a @ r) = rx_search p (if a = [] then prev else Some (last a)) r"
proof (induction a arbitrary: prev)
  case Nil
  show ?case by simp
next
  case (Cons c cs)
  show ?case
  proof (cases "rx_first (p prev) ((c # cs) @ r)")
    case (Some v)
    then have "rx_search p prev ((c # cs) @ r) = Some v" by simp
    with Some show ?thesis by (intro disjI1 exI [of _ 0]) simp
  next
    case None
    then have step: "rx_search p prev ((c # cs) @ r) = rx_search p (Some c) (cs @ r)" by simp
    from Cons.IH [of "Some c"] show ?thesis
    proof
      assume "\<exists>i<length cs.
         rx_first (p (if i = 0 then Some c else Some ((cs @ r) ! (i - 1)))) (drop i (cs @ r)) \<noteq> None
         \<and> rx_search p (Some c) (cs @ r)
             = rx_first (p (if i = 0 then Some c else Some ((cs @ r) ! (i - 1)))) (drop i (cs @ r))"
      then obtain i where i: "i < length cs"
        and m: "rx_first (p (if i = 0 then Some c else Some ((cs @ r) ! (i - 1)))) (drop i (cs @ r)) \<noteq> None"
        and e: "rx_search p (Some c) (cs @ r)
             = rx_first (p (if i = 0 then Some c else Some ((cs @ r) ! (i - 1)))) (drop i (cs @ r))"
        by blast
      have pv: "(if Suc i = 0 then prev else Some (((c # cs) @ r) ! (Suc i - 1)))
          = (if i = 0 then Some c else Some ((cs @ r) ! (i - 1)))"
        by (cases i) simp_all
      have dr: "drop (Suc i) ((c # cs) @ r) = drop i (cs @ r)" by simp
      have "Suc i < length (c # cs)" using i by simp
      moreover have "rx_first (p (if Suc i = 0 then prev else Some (((c # cs) @ r) ! (Suc i - 1))))
            (drop (Suc i) ((c # cs) @ r)) \<noteq> None"
        unfolding pv dr by (rule m)
      moreover have "rx_search p prev ((c # cs) @ r)
          = rx_first (p (if Suc i = 0 then prev else Some (((c # cs) @ r) ! (Suc i - 1))))
              (drop (Suc i) ((c # cs) @ r))"
        unfolding pv dr step by (rule e)
      ultimately show ?thesis by blast
    next
      assume "rx_search p (Some c) (cs @ r) = rx_search p (if cs = [] then Some c else Some (last cs)) r"
      with step show ?thesis by simp
    qed
  qed
qed

lemma normal_prefix_last:
  assumes "pre = [] \<or> \<not> is_word (last pre)"
  shows "trimStart (collapse_ws pre) = [] \<or> \<not> is_word (last (trimStart (collapse_ws pre)))"
proof (cases "pre = []")
  case True
  then show ?thesis by (simp add: trimStart_def)
next
  case False
  with assms have c: "collapse_ws pre \<noteq> []" "\<not> is_word (last (collapse_ws pre))"
    using collapse_ws_last [of pre] by auto
  show ?thesis
  proof (cases "trimStart (collapse_ws pre) = []")
    case True then show ?thesis by simp
  next
    case ne: False
    have "collapse_ws pre = takeWhile is_ws (collapse_ws pre) @ trimStart (collapse_ws pre)"
      by (simp add: trimStart_def)
    then have "last (collapse_ws pre) = last (trimStart (collapse_ws pre))"
      using ne by (metis last_appendR)
    with c show ?thesis by simp
  qed
qed

text \<open>The template "Released on" finds a date that parses to 3 May 2024: at an earlier match
  by the assumption, else at the phrase.\<close>

lemma released_on_phrase:
  assumes h1: "pre = [] \<or> \<not> is_word (last pre)"
    and h2: "\<forall>i < length (trimStart (collapse_ws pre)).
        case match_at (rx_released_on rx_month_group) (trim (collapse_ws (pre @ phrase @ suf))) i of
          None \<Rightarrow> True | Some D \<Rightarrow> parseEnglishMonthDate D = Some (Date 1714694400000)"
  shows "\<exists>D. rx_match (rx_released_on rx_month_group) (trim (collapse_ws (pre @ phrase @ suf))) = Some D
      \<and> parseEnglishMonthDate D = Some (Date 1714694400000)"
proof -
  let ?a = "trimStart (collapse_ws pre)" and ?b = "trimEnd (collapse_ws suf)"
  let ?p = "rx_released_on rx_month_group"
  have n: "trim (collapse_ws (pre @ phrase @ suf)) = ?a @ phrase @ ?b" by (rule normalized_phrase)
  note a = normal_prefix_last [OF h1]
  from rx_search_prefix [of ?a ?p None "phrase @ ?b"] show ?thesis
  proof
    assume "\<exists>i<length ?a.
       rx_first (?p (if i = 0 then None else Some ((?a @ phrase @ ?b) ! (i - 1))))
          (drop i (?a @ phrase @ ?b)) \<noteq> None
       \<and> rx_search ?p None (?a @ phrase @ ?b)
           = rx_first (?p (if i = 0 then None else Some ((?a @ phrase @ ?b) ! (i - 1))))
               (drop i (?a @ phrase @ ?b))"
    then obtain i where i: "i < length ?a"
      and m: "match_at ?p (?a @ phrase @ ?b) i \<noteq> None"
      and e: "rx_match ?p (?a @ phrase @ ?b) = match_at ?p (?a @ phrase @ ?b) i"
      unfolding match_at_def rx_match_def by blast
    from m obtain D where D: "match_at ?p (?a @ phrase @ ?b) i = Some D" by blast
    from h2 i have "case match_at ?p (?a @ phrase @ ?b) i of
          None \<Rightarrow> True | Some D \<Rightarrow> parseEnglishMonthDate D = Some (Date 1714694400000)"
      unfolding n by blast
    with D have "parseEnglishMonthDate D = Some (Date 1714694400000)" by simp
    with e D show ?thesis unfolding n by simp
  next
    assume "rx_search ?p None (?a @ phrase @ ?b)
        = rx_search ?p (if ?a = [] then None else Some (last ?a)) (phrase @ ?b)"
    also have "\<dots> = Some (js ''May 3, 2024'')"
      using a by (intro released_on_at_phrase) (auto simp: word_before_def)
    finally show ?thesis unfolding n rx_match_def using may_3 by simp
  qed
qed

lemma extract_phrase:
  assumes h1: "pre = [] \<or> \<not> is_word (last pre)"
    and h2: "\<forall>i < length (trimStart (collapse_ws pre)).
        case match_at (rx_released_on rx_month_group) (trim (collapse_ws (pre @ phrase @ suf))) i of
          None \<Rightarrow> True | Some D \<Rightarrow> parseEnglishMonthDate D = Some (Date 1714694400000)"
  shows "extractReleaseDateFromText (pre @ phrase @ suf) = Some (Date 1714694400000) \<longleftrightarrow>
     (case rx_match (rx_released_by rx_month_group) (trim (collapse_ws (pre @ phrase @ suf))) of
        None \<Rightarrow> True
      | Some D \<Rightarrow> parseEnglishMonthDate D = None
          \<or> parseEnglishMonthDate D = Some (Date 1714694400000))"
proof -
  let ?n = "trim (collapse_ws (pre @ phrase @ suf))"
  from released_on_phrase [OF h1 h2] obtain D where
    on: "rx_match (rx_released_on rx_month_group) ?n = Some D"
      "parseEnglishMonthDate D = Some (Date 1714694400000)" by blast
  have "phrase \<noteq> []" by (simp add: phrase_def js_def)
  then have ne: "pre @ phrase @ suf \<noteq> []" by simp
  have month: "try_patterns RELEASE_PATTERNS_MONTH parseEnglishMonthDate ?n =
      (case rx_match (rx_released_by rx_month_group) ?n of
         None \<Rightarrow> Some (Date 1714694400000)
       | Some D1 \<Rightarrow> (case parseEnglishMonthDate D1 of
                      Some d \<Rightarrow> Some d | None \<Rightarrow> Some (Date 1714694400000)))"
    by (simp add: RELEASE_PATTERNS_MONTH_def on split: option.splits)
  have "extractReleaseDateFromText (pre @ phrase @ suf)
      = try_patterns RELEASE_PATTERNS_MONTH parseEnglishMonthDate ?n"
    using ne by (simp add: extractReleaseDateFromText_def Let_def month split: option.splits)
  then show ?thesis by (simp add: month split: option.splits)
qed

subsection \<open>Numeric dates\<close>

lemma Number_foldl_nonneg:
  "list_all is_digit s \<Longrightarrow> 0 \<le> n \<Longrightarrow> 0 \<le> foldl (\<lambda>n c. 10 * n + (c - 48)) n s"
  by (induction s arbitrary: n) (auto simp: is_digit_def)

lemma Number_nonneg: "list_all is_digit s \<Longrightarrow> 0 \<le> Number s"
  unfolding Number_def by (rule Number_foldl_nonneg) simp_all

lemma reads_back_iff:
  assumes "100 \<le> y"
  shows "(getUTCFullYear (Date_UTC y (m - 1) d) = y \<and> getUTCMonth (Date_UTC y (m - 1) d) = m - 1
      \<and> getUTCDate (Date_UTC y (m - 1) d) = d) \<longleftrightarrow> valid_date y m d"
  using valid_reads_back [of y m d] reads_back_valid [of "Date_UTC y (m - 1) d" y m d] assms
  by blast

lemma first_valid_two:
  assumes "100 \<le> y"
  shows "first_valid [(a, b, y), (b, a, y)] =
     (if valid_date y a b then Some (Date_UTC y (a - 1) b)
      else if valid_date y b a then Some (Date_UTC y (b - 1) a) else None)"
  using reads_back_iff [OF assms, of a b] reads_back_iff [OF assms, of b a]
  by (auto simp: Let_def)

lemma digits12:
  assumes "list_all is_digit A" "length A = 1 \<or> length A = 2"
  obtains a where "A = [a]" "is_digit a" | a a' where "A = [a, a']" "is_digit a" "is_digit a'"
proof -
  from assms(2) show ?thesis
  proof
    assume "length A = 1"
    then obtain a where "A = [a]" by (cases A) auto
    with assms(1) that(1) show ?thesis by simp
  next
    assume "length A = 2"
    then obtain a a' where "A = [a, a']"
      by (cases A; cases "tl A") auto
    with assms(1) that(2) show ?thesis by simp
  qed
qed

lemma digits24:
  assumes "list_all is_digit Y" "2 \<le> length Y" "length Y \<le> 4"
  obtains a b where "Y = [a, b]" "is_digit a" "is_digit b"
  | a b c where "Y = [a, b, c]" "is_digit a" "is_digit b" "is_digit c"
  | a b c d where "Y = [a, b, c, d]" "is_digit a" "is_digit b" "is_digit c" "is_digit d"
proof -
  from assms(2,3) have "length Y = 2 \<or> length Y = 3 \<or> length Y = 4" by arith
  then show ?thesis
  proof (elim disjE)
    assume "length Y = 2"
    then obtain a b where "Y = [a, b]" by (cases Y; cases "tl Y") auto
    with assms(1) that(1) show ?thesis by simp
  next
    assume "length Y = 3"
    then obtain a b c where "Y = [a, b, c]"
      by (cases Y; cases "tl Y"; cases "tl (tl Y)") auto
    with assms(1) that(2) show ?thesis by simp
  next
    assume "length Y = 4"
    then obtain a b c d where "Y = [a, b, c, d]"
      by (cases Y; cases "tl Y"; cases "tl (tl Y)"; cases "tl (tl (tl Y))") auto
    with assms(1) that(3) show ?thesis by simp
  qed
qed

lemmas rx_numeric_unfold =
  rx_first_def rx_numeric_date_def rx_then_def rx_greedy_def run_top_def rx_lit_def
  rx_end_def rx_ret_def js_def is_digit_def

lemma rx_numeric_match:
  assumes "list_all is_digit A" "length A = 1 \<or> length A = 2"
    and "list_all is_digit B" "length B = 1 \<or> length B = 2"
    and "list_all is_digit Y" "2 \<le> length Y" "length Y \<le> 4"
  shows "rx_first rx_numeric_date (A @ 47 # B @ 47 # Y) = Some (A, B, Y)"
proof -
  from assms(1,2) show ?thesis
  proof (cases rule: digits12)
    case A1: 1
    from assms(3,4) show ?thesis
    proof (cases rule: digits12)
      case B1: 1
      from assms(5-7) show ?thesis
        by (cases rule: digits24) (use A1 B1 in \<open>simp_all add: rx_numeric_unfold\<close>)
    next
      case B2: 2
      from assms(5-7) show ?thesis
        by (cases rule: digits24) (use A1 B2 in \<open>simp_all add: rx_numeric_unfold\<close>)
    qed
  next
    case A2: 2
    from assms(3,4) show ?thesis
    proof (cases rule: digits12)
      case B1: 1
      from assms(5-7) show ?thesis
        by (cases rule: digits24) (use A2 B1 in \<open>simp_all add: rx_numeric_unfold\<close>)
    next
      case B2: 2
      from assms(5-7) show ?thesis
        by (cases rule: digits24) (use A2 B2 in \<open>simp_all add: rx_numeric_unfold\<close>)
    qed
  qed
qed

lemma digit_not_ws_all: "list_all is_digit s \<Longrightarrow> list_all (\<lambda>c. \<not> is_ws c) s"
  by (induction s) (auto simp: is_digit_def is_ws_def)

lemma numeric_us_date:
  assumes "list_all is_digit A" "length A = 1 \<or> length A = 2"
    and "list_all is_digit B" "length B = 1 \<or> length B = 2"
    and "list_all is_digit Y" "2 \<le> length Y" "length Y \<le> 4"
  shows "parseNumericUsDate (A @ js ''/'' @ B @ js ''/'' @ Y) =
     (let year = (if Number Y < 100 then 2000 + Number Y else Number Y) in
      if valid_date year (Number A) (Number B)
      then Some (Date_UTC year (Number A - 1) (Number B))
      else if valid_date year (Number B) (Number A)
      then Some (Date_UTC year (Number B - 1) (Number A))
      else None)"
proof -
  let ?s = "A @ 47 # B @ 47 # Y"
  have s: "A @ js ''/'' @ B @ js ''/'' @ Y = ?s" by (simp add: js_def)
  have "\<not> is_ws 47" by (simp add: is_ws_def)
  then have nw: "list_all (\<lambda>c. \<not> is_ws c) ?s"
    using assms(1,3,5) by (simp add: digit_not_ws_all)
  have "A \<noteq> []" "Y \<noteq> []" using assms(2,6) by auto
  then have ne: "?s \<noteq> []" and h: "\<not> is_ws (hd ?s)" and l: "\<not> is_ws (last ?s)"
    using nw by (auto simp: list_all_iff)
  have t: "trim ?s = ?s" using ne h l by (rule trim_id)
  have c: "collapse_ws ?s = ?s" using nw by (rule collapse_ws_id)
  have m: "rx_first rx_numeric_date ?s = Some (A, B, Y)" using assms by (rule rx_numeric_match)
  let ?y = "if Number Y < 100 then 2000 + Number Y else Number Y"
  have "0 \<le> Number Y" using assms(5) by (rule Number_nonneg)
  then have y: "100 \<le> ?y" by simp
  show ?thesis
    unfolding s parseNumericUsDate_def t c
    using ne by (simp only: m Let_def first_valid_two [OF y] if_False option.case prod.case)
qed

lemmas rx_release_unfold =
  rx_match_def rx_first_def rx_released_by_def rx_released_on_def rx_to_be_released_on_def
  rx_month_group_def rx_num_group_def rx_cat_def rx_then_def rx_greedy_def rx_lazy_def
  run_top_def rx_lit_def rx_lit_i_def rx_wb_def word_before_def word_next_def rx_ret_def
  canonicalize_def is_word_def is_alpha_def is_alpha_dot_def is_upper_def is_lower_def
  is_digit_def js_def

lemma month_templates_fail:
  assumes "list_all is_digit A" "length A = 1 \<or> length A = 2"
    and "list_all is_digit B" "length B = 1 \<or> length B = 2"
    and "list_all is_digit Y" "2 \<le> length Y" "length Y \<le> 4"
  shows "try_patterns RELEASE_PATTERNS_MONTH parse (js ''Released on '' @ A @ 47 # B @ 47 # Y) = None"
proof -
  from assms(1,2) show ?thesis
  proof (cases rule: digits12)
    case A1: 1
    from assms(3,4) show ?thesis
    proof (cases rule: digits12)
      case B1: 1
      from assms(5-7) show ?thesis
        by (cases rule: digits24)
           (use A1 B1 in \<open>simp_all add: RELEASE_PATTERNS_MONTH_def rx_release_unfold\<close>)
    next
      case B2: 2
      from assms(5-7) show ?thesis
        by (cases rule: digits24)
           (use A1 B2 in \<open>simp_all add: RELEASE_PATTERNS_MONTH_def rx_release_unfold\<close>)
    qed
  next
    case A2: 2
    from assms(3,4) show ?thesis
    proof (cases rule: digits12)
      case B1: 1
      from assms(5-7) show ?thesis
        by (cases rule: digits24)
           (use A2 B1 in \<open>simp_all add: RELEASE_PATTERNS_MONTH_def rx_release_unfold\<close>)
    next
      case B2: 2
      from assms(5-7) show ?thesis
        by (cases rule: digits24)
           (use A2 B2 in \<open>simp_all add: RELEASE_PATTERNS_MONTH_def rx_release_unfold\<close>)
    qed
  qed
qed

lemma numeric_template_found:
  assumes "list_all is_digit A" "length A = 1 \<or> length A = 2"
    and "list_all is_digit B" "length B = 1 \<or> length B = 2"
    and "list_all is_digit Y" "2 \<le> length Y" "length Y \<le> 4"
  shows "rx_match (rx_released_by rx_num_group) (js ''Released on '' @ A @ 47 # B @ 47 # Y) = None
    \<and> rx_match (rx_released_on rx_num_group) (js ''Released on '' @ A @ 47 # B @ 47 # Y)
        = Some (A @ 47 # B @ 47 # Y)
    \<and> rx_match (rx_to_be_released_on rx_num_group) (js ''Released on '' @ A @ 47 # B @ 47 # Y) = None"
proof -
  from assms(1,2) show ?thesis
  proof (cases rule: digits12)
    case A1: 1
    from assms(3,4) show ?thesis
    proof (cases rule: digits12)
      case B1: 1
      from assms(5-7) show ?thesis
        by (cases rule: digits24) (use A1 B1 in \<open>simp_all add: rx_release_unfold\<close>)
    next
      case B2: 2
      from assms(5-7) show ?thesis
        by (cases rule: digits24) (use A1 B2 in \<open>simp_all add: rx_release_unfold\<close>)
    qed
  next
    case A2: 2
    from assms(3,4) show ?thesis
    proof (cases rule: digits12)
      case B1: 1
      from assms(5-7) show ?thesis
        by (cases rule: digits24) (use A2 B1 in \<open>simp_all add: rx_release_unfold\<close>)
    next
      case B2: 2
      from assms(5-7) show ?thesis
        by (cases rule: digits24) (use A2 B2 in \<open>simp_all add: rx_release_unfold\<close>)
    qed
  qed
qed

lemma extract_numeric:
  assumes "list_all is_digit A" "length A = 1 \<or> length A = 2"
    and "list_all is_digit B" "length B = 1 \<or> length B = 2"
    and "list_all is_digit Y" "2 \<le> length Y" "length Y \<le> 4"
  shows "extractReleaseDateFromText (js ''Released on '' @ A @ js ''/'' @ B @ js ''/'' @ Y)
     = parseNumericUsDate (A @ js ''/'' @ B @ js ''/'' @ Y)"
proof -
  let ?t = "A @ 47 # B @ 47 # Y"
  let ?s = "js ''Released on '' @ ?t"
  have s: "js ''Released on '' @ A @ js ''/'' @ B @ js ''/'' @ Y = ?s"
    and t: "A @ js ''/'' @ B @ js ''/'' @ Y = ?t" by (simp_all add: js_def)
  from assms(2) obtain a r where A: "A = a # r" by (cases A) auto
  with assms(1) have a: "\<not> is_ws a" by (simp add: is_digit_def is_ws_def)
  have "\<not> is_ws 47" by (simp add: is_ws_def)
  then have nw: "list_all (\<lambda>c. \<not> is_ws c) ?t"
    using assms(1,3,5) by (simp add: digit_not_ws_all)
  have "collapse_ws (js ''Released on '' @ a # (r @ 47 # B @ 47 # Y))
      = collapse_ws (js ''Released on '') @ collapse_ws (a # (r @ 47 # B @ 47 # Y))"
    using a by (rule collapse_ws_append)
  moreover have "collapse_ws (js ''Released on '') = js ''Released on ''"
    by (simp add: js_def is_ws_def)
  moreover have "collapse_ws ?t = ?t" using nw by (rule collapse_ws_id)
  ultimately have c: "collapse_ws ?s = ?s" by (simp add: A)
  have "Y \<noteq> []" using assms(6) by auto
  then have "last ?s = last Y" by simp
  moreover have "\<not> is_ws (last Y)"
    using \<open>Y \<noteq> []\<close> digit_not_ws_all [OF assms(5)] by (simp add: list_all_iff)
  moreover have "hd ?s = 82" "?s \<noteq> []" by (simp_all add: js_def)
  ultimately have tr: "trim ?s = ?s" by (intro trim_id) (simp_all add: is_ws_def)
  note m = month_templates_fail [OF assms, of parseEnglishMonthDate]
  note n = numeric_template_found [OF assms]
  have "try_patterns RELEASE_PATTERNS_NUM parseNumericUsDate ?s = parseNumericUsDate ?t"
    using n by (cases "parseNumericUsDate ?t") (simp_all add: RELEASE_PATTERNS_NUM_def)
  then show ?thesis
    unfolding s t using \<open>?s \<noteq> []\<close>
    by (simp only: extractReleaseDateFromText_def c tr Let_def m if_False option.case)
qed

text \<open>
  Claim C6, amended.  Take a text that contains the phrase "Released on May 3, 2024", not
  directly preceded by a word character (a letter, a digit or an underscore), and such that
  every match of the template "Released on" with a month-name date that begins before the
  phrase, in the text with white space collapsed and trimmed, carries a date that parses to
  3 May 2024 (in particular: there is no such match).  The extractor returns the date
  3 May 2024 if and only if the template "Released by ... on" with a month-name date, which
  is tried first, matches nowhere, or its leftmost match carries a date that does not
  parse, or carries 3 May 2024.  And for the text "Released on " followed by a numeric date
  \<open>A/B/Y\<close>, of one or two digits, one or two digits and two to four digits, where a year
  below 100 means 2000 + year: the extractor returns the date with month \<open>A\<close> and day
  \<open>B\<close> if that is a valid date of the calendar, else the date with month \<open>B\<close> and day
  \<open>A\<close> if that one is valid, else no date.  When both are valid the month comes first.
\<close>

theorem release_date_extraction:
  "((pre = [] \<or> \<not> is_word (last pre))
      \<and> (\<forall>i < length (trimStart (collapse_ws pre)).
            case match_at (rx_released_on rx_month_group)
                   (trim (collapse_ws (pre @ js ''Released on May 3, 2024'' @ suf))) i of
              None \<Rightarrow> True
            | Some D \<Rightarrow> parseEnglishMonthDate D = Some (Date_UTC 2024 4 3))
     \<longrightarrow> (extractReleaseDateFromText (pre @ js ''Released on May 3, 2024'' @ suf)
             = Some (Date_UTC 2024 4 3)
           \<longleftrightarrow> (case rx_match (rx_released_by rx_month_group)
                       (trim (collapse_ws (pre @ js ''Released on May 3, 2024'' @ suf))) of
                  None \<Rightarrow> True
                | Some D \<Rightarrow> parseEnglishMonthDate D = None
                    \<or> parseEnglishMonthDate D = Some (Date_UTC 2024 4 3))))
   \<and> (list_all is_digit A \<and> (length A = 1 \<or> length A = 2)
      \<and> list_all is_digit B \<and> (length B = 1 \<or> length B = 2)
      \<and> list_all is_digit Y \<and> 2 \<le> length Y \<and> length Y \<le> 4
     \<longrightarrow> extractReleaseDateFromText (js ''Released on '' @ A @ js ''/'' @ B @ js ''/'' @ Y) =
          (let year = (if Number Y < 100 then 2000 + Number Y else Number Y) in
           if valid_date year (Number A) (Number B)
           then Some (Date_UTC year (Number A - 1) (Number B))
           else if valid_date year (Number B) (Number A)
           then Some (Date_UTC year (Number B - 1) (Number A))
           else None))"
proof (intro conjI impI)
  have d: "Date_UTC 2024 4 3 = Date 1714694400000" by code_simp
  assume "(pre = [] \<or> \<not> is_word (last pre))
      \<and> (\<forall>i < length (trimStart (collapse_ws pre)).
            case match_at (rx_released_on rx_month_group)
                   (trim (collapse_ws (pre @ js ''Released on May 3, 2024'' @ suf))) i of
              None \<Rightarrow> True
            | Some D \<Rightarrow> parseEnglishMonthDate D = Some (Date_UTC 2024 4 3))"
  then have h: "pre = [] \<or> \<not> is_word (last pre)"
    "\<forall>i < length (trimStart (collapse_ws pre)).
        case match_at (rx_released_on rx_month_group) (trim (collapse_ws (pre @ phrase @ suf))) i of
          None \<Rightarrow> True | Some D \<Rightarrow> parseEnglishMonthDate D = Some (Date 1714694400000)"
    unfolding d phrase_def by blast+
  show "extractReleaseDateFromText (pre @ js ''Released on May 3, 2024'' @ suf)
             = Some (Date_UTC 2024 4 3)
           \<longleftrightarrow> (case rx_match (rx_released_by rx_month_group)
                       (trim (collapse_ws (pre @ js ''Released on May 3, 2024'' @ suf))) of
                  None \<Rightarrow> True
                | Some D \<Rightarrow> parseEnglishMonthDate D = None
                    \<or> parseEnglishMonthDate D = Some (Date_UTC 2024 4 3))"
    using extract_phrase [OF h] unfolding d phrase_def .
next
  assume "list_all is_digit A \<and> (length A = 1 \<or> length A = 2)
      \<and> list_all is_digit B \<and> (length B = 1 \<or> length B = 2)
      \<and> list_all is_digit Y \<and> 2 \<le> length Y \<and> length Y \<le> 4"
  then have a: "list_all is_digit A" "length A = 1 \<or> length A = 2"
    "list_all is_digit B" "length B = 1 \<or> length B = 2"
    "list_all is_digit Y" "2 \<le> length Y" "length Y \<le> 4" by auto
  show "extractReleaseDateFromText (js ''Released on '' @ A @ js ''/'' @ B @ js ''/'' @ Y) =
          (let year = (if Number Y < 100 then 2000 + Number Y else Number Y) in
           if valid_date year (Number A) (Number B)
           then Some (Date_UTC year (Number A - 1) (Number B))
           else if valid_date year (Number B) (Number A)
           then Some (Date_UTC year (Number B - 1) (Number A))
           else None)"
    by (simp only: extract_numeric [OF a] numeric_us_date [OF a])
qed

lemma all_below: "(\<forall>i<k. P i) \<longleftrightarrow> list_all P [0 ..< k]"
  by (auto simp: list_all_iff)

text \<open>
  The theorem at five texts with the phrase and at two numeric dates.  "Newly released.
  Released on May 3, 2024" and "Released on May 3, 2024. Also released on vinyl." have the
  word "released" a second time.  In "Released on May 03, 2024. Released on May 3, 2024" an
  earlier match carries the same date.  In "Released by Sony on Foo 1, 2020. Released on
  May 3, 2024" the first template matches with a date that does not parse.  In "Released on
  May 3, 2024. Released by Sony on Jan 1, 2020" the first template matches with another
  date, and the extractor does not return 3 May 2024.  For "Released on 5/3/24" both
  readings are valid, for "Released on 13/3/24" only the day-first one is.
\<close>

theorem release_date_extraction_witness:
  "extractReleaseDateFromText (js ''Newly released. '' @ js ''Released on May 3, 2024'' @ []) = Some (Date_UTC 2024 4 3)
   \<and> extractReleaseDateFromText ([] @ js ''Released on May 3, 2024'' @ js ''. Also released on vinyl.'') = Some (Date_UTC 2024 4 3)
   \<and> extractReleaseDateFromText (js ''Released on May 03, 2024. '' @ js ''Released on May 3, 2024'' @ []) = Some (Date_UTC 2024 4 3)
   \<and> extractReleaseDateFromText (js ''Released by Sony on Foo 1, 2020. '' @ js ''Released on May 3, 2024'' @ []) = Some (Date_UTC 2024 4 3)
   \<and> extractReleaseDateFromText ([] @ js ''Released on May 3, 2024'' @ js ''. Released by Sony on Jan 1, 2020'') \<noteq> Some (Date_UTC 2024 4 3)
   \<and> extractReleaseDateFromText (js ''Released on '' @ js ''5'' @ js ''/'' @ js ''3'' @ js ''/'' @ js ''24'')
     = Some (Date_UTC 2024 4 3)
   \<and> extractReleaseDateFromText (js ''Released on '' @ js ''13'' @ js ''/'' @ js ''3'' @ js ''/'' @ js ''24'')
     = Some (Date_UTC 2024 2 13)"
proof -
  have h1: "(js ''Newly released. '' = [] \<or> \<not> is_word (last (js ''Newly released. '')))
      \<and> (\<forall>i < length (trimStart (collapse_ws (js ''Newly released. ''))).
            case match_at (rx_released_on rx_month_group)
                   (trim (collapse_ws (js ''Newly released. '' @ js ''Released on May 3, 2024'' @ []))) i of
              None \<Rightarrow> True
            | Some D \<Rightarrow> parseEnglishMonthDate D = Some (Date_UTC 2024 4 3))"
    unfolding all_below by code_simp
  have k1: "(case rx_match (rx_released_by rx_month_group)
           (trim (collapse_ws (js ''Newly released. '' @ js ''Released on May 3, 2024'' @ []))) of
       None \<Rightarrow> True
     | Some D \<Rightarrow> parseEnglishMonthDate D = None
         \<or> parseEnglishMonthDate D = Some (Date_UTC 2024 4 3))"
    by code_simp
  note e1 = release_date_extraction [of "js ''Newly released. ''" "[]" "[]" "[]" "[]", THEN conjunct1, THEN mp,
      OF h1, THEN iffD2, OF k1]
  have h2: "([] = [] \<or> \<not> is_word (last ([])))
      \<and> (\<forall>i < length (trimStart (collapse_ws ([]))).
            case match_at (rx_released_on rx_month_group)
                   (trim (collapse_ws ([] @ js ''Released on May 3, 2024'' @ js ''. Also released on vinyl.''))) i of
              None \<Rightarrow> True
            | Some D \<Rightarrow> parseEnglishMonthDate D = Some (Date_UTC 2024 4 3))"
    unfolding all_below by code_simp
  have k2: "(case rx_match (rx_released_by rx_month_group)
           (trim (collapse_ws ([] @ js ''Released on May 3, 2024'' @ js ''. Also released on vinyl.''))) of
       None \<Rightarrow> True
     | Some D \<Rightarrow> parseEnglishMonthDate D = None
         \<or> parseEnglishMonthDate D = Some (Date_UTC 2024 4 3))"
    by code_simp
  note e2 = release_date_extraction [of "[]" "js ''. Also released on vinyl.''" "[]" "[]" "[]", THEN conjunct1, THEN mp,
      OF h2, THEN iffD2, OF k2]
  have h3: "(js ''Released on May 03, 2024. '' = [] \<or> \<not> is_word (last (js ''Released on May 03, 2024. '')))
      \<and> (\<forall>i < length (trimStart (collapse_ws (js ''Released on May 03, 2024. ''))).
            case match_at (rx_released_on rx_month_group)
                   (trim (collapse_ws (js ''Released on May 03, 2024. '' @ js ''Released on May 3, 2024'' @ []))) i of
              None \<Rightarrow> True
            | Some D \<Rightarrow> parseEnglishMonthDate D = Some (Date_UTC 2024 4 3))"
    unfolding all_below by code_simp
  have k3: "(case rx_match (rx_released_by rx_month_group)
           (trim (collapse_ws (js ''Released on May 03, 2024. '' @ js ''Released on May 3, 2024'' @ []))) of
       None \<Rightarrow> True
     | Some D \<Rightarrow> parseEnglishMonthDate D = None
         \<or> parseEnglishMonthDate D = Some (Date_UTC 2024 4 3))"
    by code_simp
  note e3 = release_date_extraction [of "js ''Released on May 03, 2024. ''" "[]" "[]" "[]" "[]", THEN conjunct1, THEN mp,
      OF h3, THEN iffD2, OF k3]
  have h4: "(js ''Released by Sony on Foo 1, 2020. '' = [] \<or> \<not> is_word (last (js ''Released by Sony on Foo 1, 2020. '')))
      \<and> (\<forall>i < length (trimStart (collapse_ws (js ''Released by Sony on Foo 1, 2020. ''))).
            case match_at (rx_released_on rx_month_group)
                   (trim (collapse_ws (js ''Released by Sony on Foo 1, 2020. '' @ js ''Released on May 3, 2024'' @ []))) i of
              None \<Rightarrow> True
            | Some D \<Rightarrow> parseEnglishMonthDate D = Some (Date_UTC 2024 4 3))"
    unfolding all_below by code_simp
  have k4: "(case rx_match (rx_released_by rx_month_group)
           (trim (collapse_ws (js ''Released by Sony on Foo 1, 2020. '' @ js ''Released on May 3, 2024'' @ []))) of
       None \<Rightarrow> True
     | Some D \<Rightarrow> parseEnglishMonthDate D = None
         \<or> parseEnglishMonthDate D = Some (Date_UTC 2024 4 3))"
    by code_simp
  note e4 = release_date_extraction [of "js ''Released by Sony on Foo 1, 2020. ''" "[]" "[]" "[]" "[]", THEN conjunct1, THEN mp,
      OF h4, THEN iffD2, OF k4]
  have h5: "([] = [] \<or> \<not> is_word (last ([])))
      \<and> (\<forall>i < length (trimStart (collapse_ws ([]))).
            case match_at (rx_released_on rx_month_group)
                   (trim (collapse_ws ([] @ js ''Released on May 3, 2024'' @ js ''. Released by Sony on Jan 1, 2020''))) i of
              None \<Rightarrow> True
            | Some D \<Rightarrow> parseEnglishMonthDate D = Some (Date_UTC 2024 4 3))"
    unfolding all_below by code_simp
  have k5: "\<not> (case rx_match (rx_released_by rx_month_group)
           (trim (collapse_ws ([] @ js ''Released on May 3, 2024'' @ js ''. Released by Sony on Jan 1, 2020''))) of
       None \<Rightarrow> True
     | Some D \<Rightarrow> parseEnglishMonthDate D = None
         \<or> parseEnglishMonthDate D = Some (Date_UTC 2024 4 3))"
    by code_simp
  have e5: "extractReleaseDateFromText ([] @ js ''Released on May 3, 2024'' @ js ''. Released by Sony on Jan 1, 2020'') \<noteq> Some (Date_UTC 2024 4 3)"
    using release_date_extraction [of "[]" "js ''. Released by Sony on Jan 1, 2020''" "[]" "[]" "[]", THEN conjunct1, THEN mp,
      OF h5, THEN iffD1] k5 by blast
  have n1: "list_all is_digit (js ''5'') \<and> (length (js ''5'') = 1 \<or> length (js ''5'') = 2)
      \<and> list_all is_digit (js ''3'') \<and> (length (js ''3'') = 1 \<or> length (js ''3'') = 2)
      \<and> list_all is_digit (js ''24'') \<and> 2 \<le> length (js ''24'') \<and> length (js ''24'') \<le> 4"
    by code_simp
  have v1: "(let year = (if Number (js ''24'') < 100 then 2000 + Number (js ''24'') else Number (js ''24'')) in
           if valid_date year (Number (js ''5'')) (Number (js ''3''))
           then Some (Date_UTC year (Number (js ''5'') - 1) (Number (js ''3'')))
           else if valid_date year (Number (js ''3'')) (Number (js ''5''))
           then Some (Date_UTC year (Number (js ''3'') - 1) (Number (js ''5'')))
           else None) = Some (Date_UTC 2024 4 3)"
    by code_simp
  note m1 = release_date_extraction [of "[]" "[]" "js ''5''" "js ''3''" "js ''24''", THEN conjunct2, THEN mp,
      OF n1, unfolded v1]
  have n2: "list_all is_digit (js ''13'') \<and> (length (js ''13'') = 1 \<or> length (js ''13'') = 2)
      \<and> list_all is_digit (js ''3'') \<and> (length (js ''3'') = 1 \<or> length (js ''3'') = 2)
      \<and> list_all is_digit (js ''24'') \<and> 2 \<le> length (js ''24'') \<and> length (js ''24'') \<le> 4"
    by code_simp
  have v2: "(let year = (if Number (js ''24'') < 100 then 2000 + Number (js ''24'') else Number (js ''24'')) in
           if valid_date year (Number (js ''13'')) (Number (js ''3''))
           then Some (Date_UTC year (Number (js ''13'') - 1) (Number (js ''3'')))
           else if valid_date year (Number (js ''3'')) (Number (js ''13''))
           then Some (Date_UTC year (Number (js ''3'') - 1) (Number (js ''13'')))
           else None) = Some (Date_UTC 2024 2 13)"
    by code_simp
  note m2 = release_date_extraction [of "[]" "[]" "js ''13''" "js ''3''" "js ''24''", THEN conjunct2, THEN mp,
      OF n2, unfolded v2]
  from e1 e2 e3 e4 e5 m1 m2 show ?thesis by (intro conjI)
qed

text \<open>
  The claim as it was stated, for any text containing the phrase, fails: the templates
  begin with \<open>\b\<close>, so the phrase inside "Unreleased on May 3, 2024" gives no date, and
  the first match of a template decides, so an earlier release phrase gives its own date
  (here 1 January 2020).
\<close>

theorem release_date_extraction_counterexample:
  "str_includes (js ''Unreleased on May 3, 2024'') (js ''Released on May 3, 2024'') = False
   \<and> str_includes (js ''unReleased on May 3, 2024'') (js ''Released on May 3, 2024'')
   \<and> extractReleaseDateFromText (js ''unReleased on May 3, 2024'') = None
   \<and> str_includes (js ''Released on Jan 1, 2020. Released on May 3, 2024'')
         (js ''Released on May 3, 2024'')
   \<and> extractReleaseDateFromText (js ''Released on Jan 1, 2020. Released on May 3, 2024'')
       = Some (Date_UTC 2020 0 1)
   \<and> Date_UTC 2020 0 1 \<noteq> Date_UTC 2024 4 3"
  by code_simp

section \<open>The album details\<close>

lemma startsWith_split: "startsWith s l \<Longrightarrow> s = l @ drop (length l) s"
  by (induction s l rule: startsWith.induct) auto

lemma startsWith_take: "startsWith s l \<Longrightarrow> take (length l) s = l"
  by (induction s l rule: startsWith.induct) auto

lemma rx_lit_mem: "(a, r) \<in> set (rx_lit l s) \<Longrightarrow> a = l \<and> s = l @ r"
  using startsWith_split [of s l] startsWith_take [of s l]
  by (auto simp: rx_lit_def split: if_splits)

lemma rx_greedy_mem:
  assumes "(a, r) \<in> set (rx_greedy P lo (Some hi) s)"
  shows "list_all P a \<and> lo \<le> length a \<and> length a \<le> hi \<and> s = a @ r"
proof -
  let ?m = "length (takeWhile P s)"
  from assms have "(a, r) \<in> (\<lambda>n. (take n s, drop n s)) ` set [lo ..< Suc (min hi ?m)]"
    by (simp only: rx_greedy_def run_top_def Let_def option.case set_map set_rev)
  then obtain n where "n \<in> set [lo ..< Suc (min hi ?m)]" and e: "a = take n s" "r = drop n s"
    by blast
  then have "lo \<le> n \<and> n < Suc (min hi ?m)" by (simp del: upt_Suc)
  with e have n: "lo \<le> n" "n \<le> min hi ?m" "a = take n s" "r = drop n s"
    by auto
  have "take n s = take n (takeWhile P s)"
    using n(2) by (metis append_eq_conv_conj min.boundedE take_append takeWhile_dropWhile_id
        diff_is_0_eq take_0 append_Nil2)
  then have "list_all P a"
    using n(3) by (metis in_set_takeD list_all_iff set_takeWhileD)
  moreover have "length a = n" using n(2,3) length_takeWhile_le [of P s] by simp
  ultimately show ?thesis using n by simp
qed

lemma rx_then_mem:
  "(v, r) \<in> set (rx_then p f s) \<Longrightarrow> \<exists>a m. (a, m) \<in> set (p s) \<and> (v, r) \<in> set (f a m)"
  by (auto simp: rx_then_def)

lemma rx_cat_mem:
  "(g, r) \<in> set (rx_cat p q s) \<Longrightarrow>
     \<exists>a m b. (a, m) \<in> set (p s) \<and> (b, r) \<in> set (q m) \<and> g = a @ b"
  by (auto simp: rx_cat_def rx_then_def rx_ret_def)

lemma rx_opt_text_mem:
  "(g, r) \<in> set (rx_opt_text p s) \<Longrightarrow> (g, r) \<in> set (p s) \<or> (g = [] \<and> r = s)"
  by (auto simp: rx_opt_text_def rx_or_def rx_ret_def)

lemma rx_first_mem: "rx_first p s = Some v \<Longrightarrow> \<exists>r. (v, r) \<in> set (p s)"
  by (cases "p s") (auto simp: rx_first_def)

lemma rx_search_mem: "rx_search p prev s = Some v \<Longrightarrow> \<exists>pv t r. (v, r) \<in> set (p pv t)"
proof (induction s arbitrary: prev)
  case Nil
  then show ?case using rx_first_mem [of "p prev" "[]" v] by auto
next
  case (Cons c cs)
  show ?case
  proof (cases "rx_first (p prev) (c # cs)")
    case None
    with Cons show ?thesis by simp
  next
    case (Some a)
    with Cons.prems have "rx_first (p prev) (c # cs) = Some v" by simp
    then show ?thesis using rx_first_mem [of "p prev" "c # cs" v] by blast
  qed
qed

lemma duration_group_shape:
  assumes "(g, r) \<in> set (rx_duration_group s)"
  shows "\<exists>a b. duration2 a b \<and>
     (g = a @ js '':'' @ b \<or> (\<exists>c. list_all is_digit c \<and> length c = 2 \<and> g = a @ js '':'' @ b @ js '':'' @ c))"
proof -
  from assms obtain a m1 g1 where a: "(a, m1) \<in> set (rx_greedy is_digit 1 (Some 2) s)"
    and g1: "(g1, r) \<in> set (rx_cat (rx_lit (js '':''))
       (rx_cat (rx_greedy is_digit 2 (Some 2))
         (rx_opt_text (rx_cat (rx_lit (js '':'')) (rx_greedy is_digit 2 (Some 2))))) m1)"
    and g: "g = a @ g1"
    unfolding rx_duration_group_def by (blast dest: rx_cat_mem)
  from g1 obtain l m2 g2 where l: "(l, m2) \<in> set (rx_lit (js '':'') m1)"
    and g2: "(g2, r) \<in> set (rx_cat (rx_greedy is_digit 2 (Some 2))
         (rx_opt_text (rx_cat (rx_lit (js '':'')) (rx_greedy is_digit 2 (Some 2)))) m2)"
    and g1e: "g1 = l @ g2"
    by (blast dest: rx_cat_mem)
  from g2 obtain b m3 g3 where b: "(b, m3) \<in> set (rx_greedy is_digit 2 (Some 2) m2)"
    and g3: "(g3, r) \<in> set (rx_opt_text (rx_cat (rx_lit (js '':'')) (rx_greedy is_digit 2 (Some 2))) m3)"
    and g2e: "g2 = b @ g3"
    by (blast dest: rx_cat_mem)
  from a have da: "list_all is_digit a" "length a = 1 \<or> length a = 2"
    using rx_greedy_mem [of a m1 is_digit 1 2 s] by auto
  from b have db: "list_all is_digit b" "length b = 2"
    using rx_greedy_mem [of b m3 is_digit 2 2 m2] by auto
  from l have le: "l = js '':''" using rx_lit_mem by blast
  have d2: "duration2 a b" using da db by (simp add: duration2_def)
  from g3 consider "(g3, r) \<in> set (rx_cat (rx_lit (js '':'')) (rx_greedy is_digit 2 (Some 2)) m3)"
    | "g3 = []" using rx_opt_text_mem by blast
  then show ?thesis
  proof cases
    case 1
    then obtain l2 m4 c where "(l2, m4) \<in> set (rx_lit (js '':'') m3)"
      and c: "(c, r) \<in> set (rx_greedy is_digit 2 (Some 2) m4)" and g3e: "g3 = l2 @ c"
      by (blast dest: rx_cat_mem)
    then have "l2 = js '':''" using rx_lit_mem by blast
    moreover from c have "list_all is_digit c" "length c = 2"
      using rx_greedy_mem [of c r is_digit 2 2 m4] by auto
    ultimately show ?thesis using d2 g g1e g2e g3e le by auto
  next
    case 2
    then show ?thesis using d2 g g1e g2e le by auto
  qed
qed


lemma digit_no_ws: "is_digit c \<Longrightarrow> \<not> is_ws c"
  by (auto simp: is_digit_def is_ws_def)

lemmas rx_hms_unfold =
  hmsToSeconds_def trim_def trimStart_def trimEnd_def digit_no_ws rx_first_def rx_hms_def
  rx_then_def rx_greedy_def run_top_def rx_lit_def rx_opt_def rx_or_def rx_end_def rx_ret_def
  js_def is_digit_def

lemma duration2_cases:
  assumes "duration2 a b"
  obtains a1 b1 b2 where "a = [a1]" "b = [b1, b2]" "is_digit a1" "is_digit b1" "is_digit b2"
  | a1 a2 b1 b2 where "a = [a1, a2]" "b = [b1, b2]" "is_digit a1" "is_digit a2"
      "is_digit b1" "is_digit b2"
proof -
  from assms have b: "length b = 2" and db: "list_all is_digit b" and da: "list_all is_digit a"
    and la: "length a = 1 \<or> length a = 2" by (auto simp: duration2_def)
  from b obtain b1 b2 where be: "b = [b1, b2]" by (cases b; cases "tl b") auto
  from la show ?thesis
  proof
    assume "length a = 1"
    then obtain a1 where "a = [a1]" by (cases a) auto
    with be da db that(1) show ?thesis by simp
  next
    assume "length a = 2"
    then obtain a1 a2 where "a = [a1, a2]" by (cases a; cases "tl a") auto
    with be da db that(2) show ?thesis by simp
  qed
qed

lemma hms_two:
  assumes "duration2 a b"
  shows "trim (a @ js '':'' @ b) = a @ js '':'' @ b"
    and "hmsToSeconds (a @ js '':'' @ b) = Some (Number a * 60 + Number b)"
  using assms by (cases rule: duration2_cases; simp add: rx_hms_unfold)+

lemma hms_three:
  assumes "duration2 a b" "list_all is_digit c" "length c = 2"
  shows "trim (a @ js '':'' @ b @ js '':'' @ c) = a @ js '':'' @ b @ js '':'' @ c"
    and "hmsToSeconds (a @ js '':'' @ b @ js '':'' @ c)
      = Some (Number a * 3600 + Number b * 60 + Number c)"
proof -
  from assms(3) obtain c1 c2 where c: "c = [c1, c2]" by (cases c; cases "tl c") auto
  with assms(2) have d: "is_digit c1" "is_digit c2" by simp_all
  from assms(1) show "trim (a @ js '':'' @ b @ js '':'' @ c) = a @ js '':'' @ b @ js '':'' @ c"
    by (cases rule: duration2_cases) (use c d in \<open>simp_all add: rx_hms_unfold\<close>)
  from assms(1) show "hmsToSeconds (a @ js '':'' @ b @ js '':'' @ c)
      = Some (Number a * 3600 + Number b * 60 + Number c)"
    by (cases rule: duration2_cases) (use c d in \<open>simp_all add: rx_hms_unfold\<close>)
qed

lemma total_length_shape:
  assumes "rx_match rx_total_length t = Some g"
  shows "\<exists>a b. duration2 a b \<and>
     (g = a @ js '':'' @ b \<or> (\<exists>c. list_all is_digit c \<and> length c = 2 \<and> g = a @ js '':'' @ b @ js '':'' @ c))"
proof -
  from assms obtain pv s r where "(g, r) \<in> set (rx_total_length pv s)"
    unfolding rx_match_def by (blast dest: rx_search_mem)
  then obtain s' where "(g, r) \<in> set (rx_duration_group s')"
    unfolding rx_total_length_def by (blast dest: rx_then_mem)
  then show ?thesis by (rule duration_group_shape)
qed


lemma startsWith_i_canon: "startsWith_i t (map canonicalize w) = startsWith_i t w"
  by (induction t w rule: startsWith_i.induct) (auto simp: canonicalize_def is_lower_def)

lemma includes_i_canon: "includes_i s (map canonicalize w) = includes_i s w"
  by (induction s) (simp_all add: startsWith_i_canon)

lemma rx_search_not_included:
  assumes "\<And>pv t. \<not> startsWith_i t l \<Longrightarrow> p pv t = []" "l \<noteq> []"
  shows "\<not> includes_i s l \<Longrightarrow> rx_search p prev s = None"
proof (induction s arbitrary: prev)
  case Nil
  have "\<not> startsWith_i [] l" using assms(2) by (cases l) auto
  then show ?case using assms(1) by (simp add: rx_first_def)
next
  case (Cons c cs)
  then have "\<not> startsWith_i (c # cs) l" "\<not> includes_i cs l" by auto
  with Cons.IH assms(1) [of "c # cs" prev] show ?case by (simp add: rx_first_def)
qed

lemma total_length_prefix:
  "\<not> startsWith_i t (js ''Total length:'') \<Longrightarrow> rx_total_length pv t = []"
  by (simp add: rx_total_length_def rx_then_def rx_lit_i_def)

lemma no_total_length:
  assumes "\<not> includes_i t (js ''total length:'')"
  shows "rx_match rx_total_length t = None"
proof -
  have "map canonicalize (js ''total length:'') = map canonicalize (js ''Total length:'')"
    by (simp add: js_def canonicalize_def is_lower_def)
  then have "includes_i t (js ''Total length:'') = includes_i t (js ''total length:'')"
    by (metis includes_i_canon)
  with assms have "\<not> includes_i t (js ''Total length:'')" by simp
  moreover have "js ''Total length:'' \<noteq> []" by (simp add: js_def)
  ultimately show ?thesis
    unfolding rx_match_def using total_length_prefix by (intro rx_search_not_included)
qed

text \<open>
  Claim C7, amended.  \<open>parseAlbumDetails\<close> returns nothing whenever the expression for
  "Total length:" finds no duration in the text of the page, in particular when the text
  has no "total length:" in any letter case.  When it returns details, the duration text
  is \<open>a:b\<close> or \<open>a:b:c\<close>, with one or two digits \<open>a\<close> and two digits \<open>b\<close> and \<open>c\<close>;
  for three components \<open>total_seconds\<close> is \<open>a * 3600 + b * 60 + c\<close>, the first being
  hours, and for two components it is \<open>a * 60 + b\<close>, the first being minutes.
\<close>

theorem album_duration:
  "(rx_match rx_total_length (root_text page) = None \<longrightarrow> parseAlbumDetails page = None)
   \<and> (\<not> includes_i (root_text page) (js ''total length:'') \<longrightarrow> parseAlbumDetails page = None)
   \<and> (parseAlbumDetails page = Some det \<longrightarrow>
        (\<exists>a b. duration2 a b \<and>
           (total_length_hms det = a @ js '':'' @ b
              \<and> total_seconds det = Number a * 60 + Number b
            \<or> (\<exists>c. list_all is_digit c \<and> length c = 2
                \<and> total_length_hms det = a @ js '':'' @ b @ js '':'' @ c
                \<and> total_seconds det = Number a * 3600 + Number b * 60 + Number c))))"
proof (intro conjI impI)
  assume "rx_match rx_total_length (root_text page) = None"
  then show "parseAlbumDetails page = None" by (simp add: parseAlbumDetails_def Let_def)
next
  assume "\<not> includes_i (root_text page) (js ''total length:'')"
  then have "rx_match rx_total_length (root_text page) = None" by (rule no_total_length)
  then show "parseAlbumDetails page = None" by (simp add: parseAlbumDetails_def Let_def)
next
  assume some: "parseAlbumDetails page = Some det"
  then obtain g where g: "rx_match rx_total_length (root_text page) = Some g"
    by (cases "rx_match rx_total_length (root_text page)") (auto simp: parseAlbumDetails_def Let_def)
  from some g obtain secs where secs: "hmsToSeconds (trim g) = Some secs"
    by (cases "hmsToSeconds (trim g)") (auto simp: parseAlbumDetails_def Let_def)
  from some g secs have det: "total_length_hms det = trim g" "total_seconds det = secs"
    by (auto simp: parseAlbumDetails_def Let_def split: if_splits)
  from total_length_shape [OF g] obtain a b where d: "duration2 a b"
    and sh: "g = a @ js '':'' @ b
      \<or> (\<exists>c. list_all is_digit c \<and> length c = 2 \<and> g = a @ js '':'' @ b @ js '':'' @ c)"
    by blast
  from sh show "\<exists>a b. duration2 a b \<and>
           (total_length_hms det = a @ js '':'' @ b
              \<and> total_seconds det = Number a * 60 + Number b
            \<or> (\<exists>c. list_all is_digit c \<and> length c = 2
                \<and> total_length_hms det = a @ js '':'' @ b @ js '':'' @ c
                \<and> total_seconds det = Number a * 3600 + Number b * 60 + Number c))"
  proof
    assume e: "g = a @ js '':'' @ b"
    with hms_two [OF d] secs det have "total_length_hms det = a @ js '':'' @ b"
      "total_seconds det = Number a * 60 + Number b" by simp_all
    with d show ?thesis by blast
  next
    assume "\<exists>c. list_all is_digit c \<and> length c = 2 \<and> g = a @ js '':'' @ b @ js '':'' @ c"
    then obtain c where c: "list_all is_digit c" "length c = 2"
      and e: "g = a @ js '':'' @ b @ js '':'' @ c" by blast
    with hms_three [OF d c] secs det have "total_length_hms det = a @ js '':'' @ b @ js '':'' @ c"
      "total_seconds det = Number a * 3600 + Number b * 60 + Number c" by simp_all
    with d c show ?thesis by blast
  qed
qed

lemma duration_ex:
  "rx_match rx_total_length (root_text page_none) = None"
  "map_option total_length_hms (parseAlbumDetails page_two) = Some (js ''1:30'')"
  "map_option total_seconds (parseAlbumDetails page_two) = Some (1 * 60 + 30)"
  "map_option total_seconds (parseAlbumDetails page_three) = Some (1 * 3600 + 2 * 60 + 3)"
  by code_simp+

text \<open>The theorem at a page without a duration, with the pages of two and of three
  components beside it.\<close>

theorem album_duration_witness:
  "rx_match rx_total_length (root_text page_none) = None
   \<and> parseAlbumDetails page_none = None
   \<and> map_option total_seconds (parseAlbumDetails page_two) = Some (1 * 60 + 30)
   \<and> map_option total_seconds (parseAlbumDetails page_three) = Some (1 * 3600 + 2 * 60 + 3)"
  using album_duration [of page_none] duration_ex by simp

text \<open>
  The claim as it was stated reads a duration of two components as hours and minutes:
  "Total length: 1:30" would be 5400 seconds.  \<open>hmsToSeconds\<close> has a branch of its own
  for two components and gives 90.
\<close>

theorem album_duration_counterexample:
  "map_option total_length_hms (parseAlbumDetails page_two) = Some (js ''1:30'')
   \<and> map_option total_seconds (parseAlbumDetails page_two) = Some 90
   \<and> (90 :: int) \<noteq> 1 * 3600 + 30 * 60"
  by code_simp

text \<open>
  Claim C10.  \<open>parseAlbumDetails\<close> returns nothing when the title and the main artists
  it extracts are both empty, also when the page has a valid duration.  So the details it
  returns have a title or main artists that is not empty, beside a duration that
  \<open>hmsToSeconds\<close> parsed.
\<close>

theorem album_needs_title_or_artists:
  "(page_title page = [] \<and> page_main_artists page = [] \<longrightarrow> parseAlbumDetails page = None)
   \<and> (parseAlbumDetails page = Some det \<longrightarrow>
        (title det \<noteq> [] \<or> det_main_artists det \<noteq> [])
        \<and> title det = page_title page \<and> det_main_artists det = page_main_artists page
        \<and> (\<exists>g. rx_match rx_total_length (root_text page) = Some g
              \<and> total_length_hms det = trim g
              \<and> hmsToSeconds (trim g) = Some (total_seconds det)))"
  by (auto simp: parseAlbumDetails_def Let_def split: option.splits if_splits)

lemma anon_ex:
  "page_title page_anon = []" "page_main_artists page_anon = []"
  "rx_match rx_total_length (root_text page_anon) = Some (js ''1:02:03'')"
  "hmsToSeconds (js ''1:02:03'') = Some 3723"
  by code_simp+

text \<open>The theorem at a page with the duration 1:02:03 and neither title nor artists.\<close>

theorem album_needs_title_or_artists_witness:
  "page_title page_anon = [] \<and> page_main_artists page_anon = []
   \<and> rx_match rx_total_length (root_text page_anon) = Some (js ''1:02:03'')
   \<and> hmsToSeconds (js ''1:02:03'') = Some 3723
   \<and> parseAlbumDetails page_anon = None"
  using album_needs_title_or_artists [of page_anon] anon_ex by simp

section \<open>The genre\<close>

lemma includes_unit: "str_includes s [d] \<longleftrightarrow> d \<in> set s"
  by (induction s) auto

lemma before_unit: "before s [d] = takeWhile (\<lambda>c. c \<noteq> d) s"
  by (induction s) auto

lemma cut_at_delimiter_find:
  "cut_at_delimiter ds raw =
     (case find (\<lambda>d. d \<in> set raw) ds of
        None \<Rightarrow> None
      | Some d \<Rightarrow> Some (or_null (trim (takeWhile (\<lambda>c. c \<noteq> d) raw))))"
  by (induction ds) (simp_all add: includes_unit before_unit)

lemma find_first:
  "d \<in> set ds \<Longrightarrow> P d \<Longrightarrow> (\<forall>e \<in> set (takeWhile (\<lambda>e. e \<noteq> d) ds). \<not> P e) \<Longrightarrow> find P ds = Some d"
  by (induction ds) auto

lemma find_none: "(\<forall>d \<in> set ds. \<not> P d) \<Longrightarrow> find P ds = None"
  by (induction ds) auto

lemma heading_line_rx:
  "heading_line n \<longleftrightarrow> rx_first rx_heading n \<noteq> None \<or> endsWith n (js '':'')"
proof -
  have wb: "rx_wb (Some 115) r = (if word_next r then [] else [((), r)])" for r
    by (simp add: rx_wb_def word_before_def is_word_def is_alpha_def is_lower_def)
  have "rx_first rx_heading n \<noteq> None \<longleftrightarrow> rx_heading n \<noteq> []"
    by (cases "rx_heading n") (auto simp: rx_first_def)
  also have "\<dots> \<longleftrightarrow> (\<exists>h \<in> set headings. startsWith_i n h \<and> \<not> word_next (drop (length h) n))"
    by (simp add: rx_heading_def rx_then_def rx_or_def rx_lit_i_def rx_ret_def wb headings_def)
  finally show ?thesis by (simp add: heading_line_def)
qed

text \<open>The lines that the loop reads are trimmed and not empty.\<close>

lemma genre_lines_trimmed: "l \<in> set (genre_lines t) \<Longrightarrow> l \<noteq> [] \<and> trim l = l"
  by (auto simp: genre_lines_def trim_trim)

lemma genre_window_trimmed: "l \<in> set (genre_window t) \<Longrightarrow> l \<noteq> [] \<and> trim l = l"
proof -
  assume "l \<in> set (genre_window t)"
  then have "l \<in> set (genre_lines t)"
    unfolding genre_window_def by (blast dest: in_set_takeD set_dropWhileD)
  then show ?thesis by (rule genre_lines_trimmed)
qed

text \<open>Among such lines the first tag is the line that follows, unless it is a heading line.\<close>

lemma first_tag_next:
  assumes "\<forall>l \<in> set ls. l \<noteq> [] \<and> trim l = l"
  shows "first_tag (take 9 ls) = Some g \<longleftrightarrow> (\<exists>rest. ls = g # rest) \<and> \<not> heading_line g"
proof (cases ls)
  case Nil
  then show ?thesis by (simp add: first_tag_def)
next
  case (Cons l rest)
  with assms have l: "l \<noteq> []" "trim l = l" by auto
  have t: "take 9 (l # rest) = l # take 8 rest" by (simp add: take_Cons')
  show ?thesis
  proof (cases "heading_line l")
    case True
    then have "collect_tags (l # take 8 rest) = []"
      by (simp add: l heading_line_rx Let_def)
    with True show ?thesis by (auto simp: Cons t first_tag_def)
  next
    case False
    then have "collect_tags (l # take 8 rest) = l # collect_tags (take 8 rest)"
      by (simp add: l heading_line_rx Let_def)
    with False l show ?thesis by (auto simp: Cons t first_tag_def)
  qed
qed

text \<open>The loop decides at the first line that has a value.\<close>

lemma genre_loop_skip:
  "\<forall>l \<in> set pre. genre_raw l = None \<Longrightarrow> genre_loop (pre @ w) = genre_loop w"
  by (induction pre) simp_all

lemma genre_loop_first:
  "genre_loop w = Some g \<longleftrightarrow>
     (\<exists>pre line post. w = pre @ line # post \<and> (\<forall>l \<in> set pre. genre_raw l = None)
        \<and> ((\<exists>raw. genre_raw line = Some raw \<and> raw \<noteq> [] \<and> normalize_genre raw = Some g)
           \<or> (genre_raw line = Some [] \<and> first_tag (take 9 post) = Some g)))"
  (is "?L w \<longleftrightarrow> ?R w")
proof
  show "?L w \<Longrightarrow> ?R w"
  proof (induction w)
    case Nil
    then show ?case by simp
  next
    case (Cons line ls)
    show ?case
    proof (cases "genre_raw line")
      case None
      with Cons.prems have "genre_loop ls = Some g" by simp
      from Cons.IH [OF this] obtain pre l post where
        s: "ls = pre @ l # post" "\<forall>x \<in> set pre. genre_raw x = None"
        and d: "(\<exists>raw. genre_raw l = Some raw \<and> raw \<noteq> [] \<and> normalize_genre raw = Some g)
           \<or> (genre_raw l = Some [] \<and> first_tag (take 9 post) = Some g)" by blast
      from s None have "line # ls = (line # pre) @ l # post"
        "\<forall>x \<in> set (line # pre). genre_raw x = None" by simp_all
      with d show ?thesis by blast
    next
      case (Some raw)
      have "line # ls = [] @ line # ls" "\<forall>x \<in> set []. genre_raw x = None" by simp_all
      moreover have "(\<exists>raw. genre_raw line = Some raw \<and> raw \<noteq> [] \<and> normalize_genre raw = Some g)
           \<or> (genre_raw line = Some [] \<and> first_tag (take 9 ls) = Some g)"
        using Some Cons.prems by (cases "raw = []") simp_all
      ultimately show ?thesis by blast
    qed
  qed
next
  assume "?R w"
  then obtain pre line post where
    s: "w = pre @ line # post" "\<forall>x \<in> set pre. genre_raw x = None"
    and d: "(\<exists>raw. genre_raw line = Some raw \<and> raw \<noteq> [] \<and> normalize_genre raw = Some g)
           \<or> (genre_raw line = Some [] \<and> first_tag (take 9 post) = Some g)" by blast
  from s have "genre_loop w = genre_loop (line # post)" by (simp add: genre_loop_skip)
  also from d have "\<dots> = Some g" by auto
  finally show "?L w" .
qed

lemma parseAlbumFirstGenre_window: "parseAlbumFirstGenre t = genre_loop (genre_window t)"
proof -
  let ?f = "dropWhile (\<lambda>line. \<not> str_includes (toLowerCase line) (js ''about the album''))
      (genre_lines t)"
  have "(if ?f = [] then None else genre_loop (take 160 ?f)) = genre_loop (take 160 ?f)"
  proof (cases "?f = []")
    case True
    have "(if [] = ([] :: jstr list) then None else genre_loop (take 160 [])) = genre_loop (take 160 [])"
      by simp
    then show ?thesis unfolding True .
  next
    case False
    then show ?thesis by (simp only: if_False)
  qed
  then show ?thesis unfolding parseAlbumFirstGenre_def genre_window_def Let_def .
qed

text \<open>
  Claim C9, amended.  The extractor decides at the genre line: the first line of the window
  from which a value is read.  It returns a genre exactly in two cases.  Either the value
  of the genre line is not empty, and the genre is that value normalized; or the value is
  empty, and the genre is the line that directly follows the genre line in the window, as
  it is, provided that this line is not a heading line.  The normalization of a value is:
  "Classical" exactly when the value begins with "classical" in any letter case; else, when
  a delimiter occurs in it, its first segment, up to the first occurrence of the first of
  the delimiters \<open>/\<close>, \<open>,\<close>, \<open>|\<close>, U+203A, \<open>>\<close> that occurs in it, trimmed; else its first
  token, up to the first space.
\<close>

theorem genre_normalization:
  "(parseAlbumFirstGenre t = Some g \<longleftrightarrow>
      (\<exists>pre line post. genre_window t = pre @ line # post
          \<and> (\<forall>l \<in> set pre. genre_raw l = None)
          \<and> ((\<exists>raw. genre_raw line = Some raw \<and> raw \<noteq> [] \<and> normalize_genre raw = Some g)
             \<or> (genre_raw line = Some [] \<and> (\<exists>rest. post = g # rest) \<and> \<not> heading_line g))))
   \<and> (startsWith (toLowerCase raw) (js ''classical'') \<longrightarrow> normalize_genre raw = Some (js ''Classical''))
   \<and> (\<not> startsWith (toLowerCase raw) (js ''classical'') \<and> d \<in> set delimiters \<and> d \<in> set raw
        \<and> (\<forall>e \<in> set (takeWhile (\<lambda>e. e \<noteq> d) delimiters). e \<notin> set raw)
      \<longrightarrow> normalize_genre raw = or_null (trim (takeWhile (\<lambda>c. c \<noteq> d) raw)))
   \<and> (\<not> startsWith (toLowerCase raw) (js ''classical'') \<and> (\<forall>d \<in> set delimiters. d \<notin> set raw)
      \<longrightarrow> normalize_genre raw = or_null (trim (takeWhile (\<lambda>c. c \<noteq> 32) raw)))"
proof (intro conjI impI)
  have tags: "first_tag (take 9 post) = Some g \<longleftrightarrow> (\<exists>rest. post = g # rest) \<and> \<not> heading_line g"
    if "genre_window t = pre @ line # post" for pre line post
  proof (rule first_tag_next)
    show "\<forall>l \<in> set post. l \<noteq> [] \<and> trim l = l"
      using genre_window_trimmed [of _ t] that by simp
  qed
  show "parseAlbumFirstGenre t = Some g \<longleftrightarrow>
      (\<exists>pre line post. genre_window t = pre @ line # post
          \<and> (\<forall>l \<in> set pre. genre_raw l = None)
          \<and> ((\<exists>raw. genre_raw line = Some raw \<and> raw \<noteq> [] \<and> normalize_genre raw = Some g)
             \<or> (genre_raw line = Some [] \<and> (\<exists>rest. post = g # rest) \<and> \<not> heading_line g)))"
    unfolding parseAlbumFirstGenre_window genre_loop_first [of "genre_window t" g]
    using tags by blast
next
  assume "startsWith (toLowerCase raw) (js ''classical'')"
  then show "normalize_genre raw = Some (js ''Classical'')" by (simp add: normalize_genre_def)
next
  assume a: "\<not> startsWith (toLowerCase raw) (js ''classical'') \<and> d \<in> set delimiters \<and> d \<in> set raw
        \<and> (\<forall>e \<in> set (takeWhile (\<lambda>e. e \<noteq> d) delimiters). e \<notin> set raw)"
  then have "find (\<lambda>d. d \<in> set raw) delimiters = Some d" by (intro find_first) auto
  with a show "normalize_genre raw = or_null (trim (takeWhile (\<lambda>c. c \<noteq> d) raw))"
    by (simp add: normalize_genre_def cut_at_delimiter_find)
next
  assume a: "\<not> startsWith (toLowerCase raw) (js ''classical'') \<and> (\<forall>d \<in> set delimiters. d \<notin> set raw)"
  then have "find (\<lambda>d. d \<in> set raw) delimiters = None" by (intro find_none) auto
  with a show "normalize_genre raw = or_null (trim (takeWhile (\<lambda>c. c \<noteq> 32) raw))"
    by (simp add: normalize_genre_def cut_at_delimiter_find before_unit [of raw 32, unfolded] js_def)
qed

lemma genre_ex:
  "startsWith (toLowerCase (js ''CLASSICAL music'')) (js ''classical'')"
  "\<not> startsWith (toLowerCase (js ''Jazz, Fusion > Rock'')) (js ''classical'')"
  "44 \<in> set delimiters" "44 \<in> set (js ''Jazz, Fusion > Rock'')"
  "\<forall>e \<in> set (takeWhile (\<lambda>e. e \<noteq> 44) delimiters). e \<notin> set (js ''Jazz, Fusion > Rock'')"
  "or_null (trim (takeWhile (\<lambda>c. c \<noteq> 44) (js ''Jazz, Fusion > Rock''))) = Some (js ''Jazz'')"
  "\<not> startsWith (toLowerCase (js ''Pop Rock'')) (js ''classical'')"
  "\<forall>d \<in> set delimiters. d \<notin> set (js ''Pop Rock'')"
  "or_null (trim (takeWhile (\<lambda>c. c \<noteq> 32) (js ''Pop Rock''))) = Some (js ''Pop'')"
  by code_simp+

lemma genre_window_ex:
  "genre_window genre_page_value
     = [js ''About the album'', js ''Label: Sony'', js ''Genre: Jazz, Fusion > Rock'', js ''Pop'']"
  "genre_window genre_page_tags
     = [js ''About the album'', js ''Label: Sony'', js ''Genre'', js ''Jazz Fusion / Rock'', js ''Pop'']"
  "genre_window genre_page_heading
     = [js ''About the album'', js ''Genre'', js ''Label: Sony'', js ''Jazz'']"
  by code_simp+

lemma genre_raw_ex:
  "genre_raw (js ''About the album'') = None"
  "genre_raw (js ''Label: Sony'') = None"
  "genre_raw (js ''Genre: Jazz, Fusion > Rock'') = Some (js ''Jazz, Fusion > Rock'')"
  "genre_raw (js ''Genre'') = Some []"
  "js ''Jazz, Fusion > Rock'' \<noteq> []"
  "normalize_genre (js ''Jazz, Fusion > Rock'') = Some (js ''Jazz'')"
  "\<not> heading_line (js ''Jazz Fusion / Rock'')"
  "heading_line (js ''Label: Sony'')"
  by code_simp+

text \<open>
  The theorem at the three pages and at three values.  On the first page the genre line has
  the value "Jazz, Fusion > Rock", which is cut at the comma.  On the second page it has no
  value and the next line, "Jazz Fusion / Rock", is the genre as it is.  On the third page
  it has no value and a heading follows: no genre.  The values are one that begins with
  "classical", one with a comma and a later delimiter, one without a delimiter.
\<close>

theorem genre_normalization_witness:
  "parseAlbumFirstGenre genre_page_value = Some (js ''Jazz'')
   \<and> parseAlbumFirstGenre genre_page_tags = Some (js ''Jazz Fusion / Rock'')
   \<and> parseAlbumFirstGenre genre_page_heading = None
   \<and> normalize_genre (js ''CLASSICAL music'') = Some (js ''Classical'')
   \<and> normalize_genre (js ''Jazz, Fusion > Rock'') = Some (js ''Jazz'')
   \<and> normalize_genre (js ''Pop Rock'') = Some (js ''Pop'')"
proof -
  note v = genre_normalization [of genre_page_value "js ''Jazz''" "js ''CLASSICAL music''" 44]
  note g = genre_normalization [of genre_page_tags "js ''Jazz Fusion / Rock''"
      "js ''Jazz, Fusion > Rock''" 44]
  note h = genre_normalization [of genre_page_heading "js ''Jazz''" "js ''Pop Rock''" 44]
  have "\<exists>pre line post. genre_window genre_page_value = pre @ line # post
          \<and> (\<forall>l \<in> set pre. genre_raw l = None)
          \<and> ((\<exists>raw. genre_raw line = Some raw \<and> raw \<noteq> [] \<and> normalize_genre raw = Some (js ''Jazz''))
             \<or> (genre_raw line = Some [] \<and> (\<exists>rest. post = js ''Jazz'' # rest)
                 \<and> \<not> heading_line (js ''Jazz'')))"
    by (intro exI [of _ "[js ''About the album'', js ''Label: Sony'']"]
          exI [of _ "js ''Genre: Jazz, Fusion > Rock''"] exI [of _ "[js ''Pop'']"])
       (simp add: genre_window_ex genre_raw_ex)
  with v have 1: "parseAlbumFirstGenre genre_page_value = Some (js ''Jazz'')" by blast
  have "\<exists>pre line post. genre_window genre_page_tags = pre @ line # post
          \<and> (\<forall>l \<in> set pre. genre_raw l = None)
          \<and> ((\<exists>raw. genre_raw line = Some raw \<and> raw \<noteq> []
                 \<and> normalize_genre raw = Some (js ''Jazz Fusion / Rock''))
             \<or> (genre_raw line = Some [] \<and> (\<exists>rest. post = js ''Jazz Fusion / Rock'' # rest)
                 \<and> \<not> heading_line (js ''Jazz Fusion / Rock'')))"
    by (intro exI [of _ "[js ''About the album'', js ''Label: Sony'']"]
          exI [of _ "js ''Genre''"] exI [of _ "[js ''Jazz Fusion / Rock'', js ''Pop'']"])
       (simp add: genre_window_ex genre_raw_ex)
  with g have 2: "parseAlbumFirstGenre genre_page_tags = Some (js ''Jazz Fusion / Rock'')"
    by blast
  have 3: "parseAlbumFirstGenre genre_page_heading = None" by code_simp
  from v genre_ex have 5: "normalize_genre (js ''CLASSICAL music'') = Some (js ''Classical'')"
    by blast
  from g genre_ex have 6: "normalize_genre (js ''Jazz, Fusion > Rock'') = Some (js ''Jazz'')"
    by simp
  from h genre_ex have 7: "normalize_genre (js ''Pop Rock'') = Some (js ''Pop'')" by simp
  from 1 2 3 5 6 7 show ?thesis by (intro conjI)
qed

text \<open>
  The claim as it was stated, for every genre returned, fails where the genre line has no
  value: the line after it is returned as it is.  Here it begins with "classical" and
  holds a delimiter, and is neither replaced by "Classical" nor cut.
\<close>

theorem genre_normalization_counterexample:
  "parseAlbumFirstGenre
      (js ''About the album'' @ [10] @ js ''Genre'' @ [10] @ js ''classical / Opera'' @ [10])
     = Some (js ''classical / Opera'')
   \<and> startsWith (toLowerCase (js ''classical / Opera'')) (js ''classical'')
   \<and> js ''classical / Opera'' \<noteq> js ''Classical''
   \<and> str_includes (js ''classical / Opera'') (js ''/'')"
  by code_simp

section \<open>Properties of the deduplication\<close>

subsection \<open>The key\<close>

text \<open>\<open>trim\<close> followed by the replacement of the runs of white space joins the words of the
  string by single spaces.\<close>

lemma first_word:
  assumes ne: "dropWhile is_ws s \<noteq> []"
  shows "takeWhile (\<lambda>c. \<not> is_ws c) (dropWhile is_ws s) \<noteq> []"
    and "list_all (\<lambda>c. \<not> is_ws c) (takeWhile (\<lambda>c. \<not> is_ws c) (dropWhile is_ws s))"
    and "\<not> is_ws (last (takeWhile (\<lambda>c. \<not> is_ws c) (dropWhile is_ws s)))"
proof -
  let ?r = "dropWhile is_ws s"
  let ?w = "takeWhile (\<lambda>c. \<not> is_ws c) ?r"
  from ne have "\<not> is_ws (hd ?r)" by (rule hd_dropWhile)
  with ne show w_ne: "?w \<noteq> []" by (cases ?r) simp_all
  show w_all: "list_all (\<lambda>c. \<not> is_ws c) ?w"
    by (auto simp: list_all_iff dest: set_takeWhileD)
  from w_ne have "last ?w \<in> set ?w" by (rule last_in_set)
  then show "\<not> is_ws (last ?w)" by (auto dest: set_takeWhileD)
qed

lemma collapse_last_word:
  assumes ne: "dropWhile is_ws s \<noteq> []"
    and last: "dropWhile is_ws (dropWhile (\<lambda>c. \<not> is_ws c) (dropWhile is_ws s)) = []"
  shows "collapse_ws (trim s) = takeWhile (\<lambda>c. \<not> is_ws c) (dropWhile is_ws s)"
proof -
  let ?r = "dropWhile is_ws s"
  let ?w = "takeWhile (\<lambda>c. \<not> is_ws c) ?r" and ?r' = "dropWhile (\<lambda>c. \<not> is_ws c) ?r"
  note w = first_word [OF ne]
  from last have "list_all is_ws ?r'" by (simp only: list_all_iff dropWhile_eq_Nil_conv)
  then have "trimEnd (?w @ ?r') = ?w" using w(1,3) by (rule trimEnd_word)
  then have "trim s = ?w" by (simp only: trim_def trimStart_def takeWhile_dropWhile_id)
  then show ?thesis by (simp only: collapse_ws_id [OF w(2)])
qed

lemma collapse_next_word:
  assumes ne: "dropWhile is_ws s \<noteq> []"
    and more: "dropWhile is_ws (dropWhile (\<lambda>c. \<not> is_ws c) (dropWhile is_ws s)) \<noteq> []"
  shows "collapse_ws (trim s) = takeWhile (\<lambda>c. \<not> is_ws c) (dropWhile is_ws s)
      @ 32 # collapse_ws (trim (dropWhile (\<lambda>c. \<not> is_ws c) (dropWhile is_ws s)))"
proof -
  let ?r = "dropWhile is_ws s"
  let ?w = "takeWhile (\<lambda>c. \<not> is_ws c) ?r" and ?r' = "dropWhile (\<lambda>c. \<not> is_ws c) ?r"
  let ?ws1 = "takeWhile is_ws ?r'" and ?r'' = "dropWhile is_ws ?r'"
  let ?x = "trimEnd ?r''"
  note w = first_word [OF ne]
  have r'_ne: "?r' \<noteq> []"
  proof
    assume "?r' = []"
    then have "dropWhile is_ws ?r' = []" by (simp only: dropWhile.simps)
    with more show False ..
  qed
  then have "\<not> \<not> is_ws (hd ?r')" by (rule hd_dropWhile)
  with r'_ne have ws1_ne: "?ws1 \<noteq> []" by (cases ?r') simp_all
  have ws1_all: "list_all is_ws ?ws1" by (auto simp: list_all_iff dest: set_takeWhileD)
  from more have hd2: "\<not> is_ws (hd ?r'')" by (rule hd_dropWhile)
  from trimEnd_hd [OF more hd2] have xne: "?x \<noteq> []" and xhd: "hd ?x = hd ?r''" by blast+
  from xne obtain x0 xs where x: "?x = x0 # xs" by (cases ?x) blast+
  have x0: "\<not> is_ws x0" using xhd hd2 unfolding x by simp
  from more have in2: "hd ?r'' \<in> set ?r''" by (rule hd_in_set)
  have "trimEnd ((?w @ ?ws1) @ ?r'') = (?w @ ?ws1) @ ?x" using in2 hd2 by (rule trimEnd_append)
  then have "trimEnd ?r = ?w @ ?ws1 @ x0 # xs"
    by (simp only: append_assoc takeWhile_dropWhile_id x)
  then have t1: "trim s = ?w @ ?ws1 @ x0 # xs" by (simp only: trim_def trimStart_def)
  have "collapse_ws (?w @ ?ws1 @ x0 # xs) = ?w @ collapse_ws (?ws1 @ x0 # xs)"
    using w(2) by (rule collapse_ws_word)
  also have "collapse_ws (?ws1 @ x0 # xs) = collapse_ws ?ws1 @ collapse_ws (x0 # xs)"
    using x0 by (rule collapse_ws_append)
  also have "collapse_ws ?ws1 = [32]" using ws1_all ws1_ne by (rule collapse_ws_run)
  finally have "collapse_ws (trim s) = ?w @ [32] @ collapse_ws ?x" by (simp only: t1 x)
  moreover have "trim ?r' = ?x" by (simp only: trim_def trimStart_def)
  ultimately show ?thesis by (simp only: append_Cons append_Nil)
qed

lemma ws_words_blank: "dropWhile is_ws s = [] \<Longrightarrow> ws_words s = []"
  by (simp add: ws_words.simps [of s])

lemma ws_words_word:
  "dropWhile is_ws s \<noteq> [] \<Longrightarrow>
     ws_words s = takeWhile (\<lambda>c. \<not> is_ws c) (dropWhile is_ws s)
        # ws_words (dropWhile (\<lambda>c. \<not> is_ws c) (dropWhile is_ws s))"
  by (simp add: ws_words.simps [of s] Let_def)

lemma normalize_words: "collapse_ws (trim s) = unwords (ws_words s)"
proof (induction s rule: ws_words.induct)
  case (1 s)
  let ?r = "dropWhile is_ws s"
  let ?w = "takeWhile (\<lambda>c. \<not> is_ws c) ?r" and ?r' = "dropWhile (\<lambda>c. \<not> is_ws c) ?r"
  show ?case
  proof (cases "?r = []")
    case True
    then show ?thesis by (simp only: trim_blank ws_words_blank unwords.simps collapse_ws.simps)
  next
    case ne: False
    have ih: "collapse_ws (trim ?r') = unwords (ws_words ?r')"
      using refl ne by (rule 1)
    show ?thesis
    proof (cases "dropWhile is_ws ?r' = []")
      case True
      show ?thesis
        by (simp only: collapse_last_word [OF ne True] ws_words_word [OF ne]
              ws_words_blank [OF True] unwords.simps)
    next
      case False
      then obtain v vs where v: "ws_words ?r' = v # vs"
        using ws_words_word [of ?r'] by blast
      show ?thesis
        by (simp only: collapse_next_word [OF ne False] ih ws_words_word [OF ne] v unwords.simps)
    qed
  qed
qed

lemma normalizeKey_words: "normalizeKey s = toLowerCase (whitespace_collapsed s)"
  by (simp only: normalizeKey_def whitespace_collapsed_def normalize_words)

lemma dedup_key_record_key: "dedup_key r = record_key r"
  by (simp only: dedup_key_def record_key_def normalizeKey_words)

subsection \<open>The loop\<close>

lemma dedup_loop_seen:
  "seen (dedup_loop rs st) = seen st \<union> dedup_key ` set rs"
  by (induction rs arbitrary: st) (auto simp: dedup_step_def Let_def)

lemma dedup_step_cases:
  "dedup_key r \<in> seen st \<Longrightarrow> dedup (dedup_step r st) = dedup st"
  "dedup_key r \<notin> seen st \<Longrightarrow> dedup (dedup_step r st) = dedup st @ [r]"
  by (simp_all add: dedup_step_def Let_def)

lemma dedup_loop_dedup:
  "dedup (dedup_loop rs st) = dedup st @ fresh (seen st) rs"
  by (induction rs arbitrary: st) (auto simp: dedup_step_def Let_def)

lemma dedup_loop_removed:
  "duplicatesRemoved (dstats (dedup_loop rs st)) + length (fresh (seen st) rs)
     = duplicatesRemoved (dstats st) + length rs"
proof (induction rs arbitrary: st)
  case Nil then show ?case by simp
next
  case (Cons a rs)
  show ?case
  proof (cases "dedup_key a \<in> seen st")
    case True
    then have "seen (dedup_step a st) = seen st"
      and "duplicatesRemoved (dstats (dedup_step a st)) = duplicatesRemoved (dstats st) + 1"
      by (simp_all add: dedup_step_def)
    with Cons.IH [of "dedup_step a st"] True show ?thesis by simp
  next
    case False
    then have "seen (dedup_step a st) = insert (dedup_key a) (seen st)"
      and "duplicatesRemoved (dstats (dedup_step a st)) = duplicatesRemoved (dstats st)"
      by (simp_all add: dedup_step_def)
    with Cons.IH [of "dedup_step a st"] False show ?thesis by simp
  qed
qed

lemma fresh_subseq: "subseq (fresh S rs) rs"
  by (induction rs arbitrary: S) (auto intro: subseq_Cons')

lemma fresh_keys: "dedup_key ` set (fresh S rs) = dedup_key ` set rs - S"
  by (induction rs arbitrary: S) auto

lemma fresh_not_seen: "r \<in> set (fresh S rs) \<Longrightarrow> dedup_key r \<notin> S"
  using fresh_keys [of S rs] by blast

lemma fresh_distinct: "distinct (map dedup_key (fresh S rs))"
  by (induction rs arbitrary: S) (auto dest: fresh_not_seen)

lemma fresh_first:
  "r \<in> set (fresh S rs) \<Longrightarrow> find (\<lambda>x. dedup_key x = dedup_key r) rs = Some r"
proof (induction rs arbitrary: S)
  case Nil then show ?case by simp
next
  case (Cons a rs)
  show ?case
  proof (cases "dedup_key a \<in> S")
    case True
    with Cons.prems have in_rest: "r \<in> set (fresh S rs)" by simp
    have "dedup_key r \<in> dedup_key ` set (fresh S rs)" using in_rest by (rule imageI)
    then have "dedup_key r \<notin> S" by (simp add: fresh_keys)
    with True have "dedup_key a \<noteq> dedup_key r" by auto
    with Cons.IH [OF in_rest] show ?thesis by simp
  next
    case False
    with Cons.prems have "r = a \<or> r \<in> set (fresh (insert (dedup_key a) S) rs)" by simp
    then show ?thesis
    proof
      assume "r = a" then show ?thesis by simp
    next
      assume in_rest: "r \<in> set (fresh (insert (dedup_key a) S) rs)"
      have "dedup_key r \<in> dedup_key ` set (fresh (insert (dedup_key a) S) rs)"
        using in_rest by (rule imageI)
      then have "dedup_key a \<noteq> dedup_key r" by (auto simp: fresh_keys)
      with Cons.IH [OF in_rest] show ?thesis by simp
    qed
  qed
qed

lemma positions_Cons:
  "map (\<lambda>i. (a # rs) ! i) (filter Q [0 ..< length (a # rs)])
     = (if Q 0 then [a] else []) @ map (\<lambda>i. rs ! i) (filter (\<lambda>i. Q (Suc i)) [0 ..< length rs])"
proof -
  have "[0 ..< length (a # rs)] = 0 # map Suc [0 ..< length rs]"
    by (simp add: upt_conv_Cons map_Suc_upt del: upt_Suc)
  then show ?thesis by (simp add: filter_map comp_def del: upt_Suc)
qed

lemma fresh_positions:
  "fresh S rs = map (\<lambda>i. rs ! i)
     (filter (\<lambda>i. dedup_key (rs ! i) \<notin> S \<and> (\<forall>r \<in> set (take i rs). dedup_key r \<noteq> dedup_key (rs ! i)))
        [0 ..< length rs])"
proof (induction rs arbitrary: S)
  case Nil
  show ?case by simp
next
  case (Cons a rs)
  show ?case
  proof (cases "dedup_key a \<in> S")
    case True
    then have same: "(dedup_key (rs ! i) \<notin> S \<and> dedup_key a \<noteq> dedup_key (rs ! i)
          \<and> (\<forall>r \<in> set (take i rs). dedup_key r \<noteq> dedup_key (rs ! i)))
        = (dedup_key (rs ! i) \<notin> S \<and> (\<forall>r \<in> set (take i rs). dedup_key r \<noteq> dedup_key (rs ! i)))"
      for i by auto
    show ?thesis
      unfolding positions_Cons using True by (simp add: same Cons.IH [of S])
  next
    case False
    then have same: "(dedup_key (rs ! i) \<notin> S \<and> dedup_key a \<noteq> dedup_key (rs ! i)
          \<and> (\<forall>r \<in> set (take i rs). dedup_key r \<noteq> dedup_key (rs ! i)))
        = (dedup_key (rs ! i) \<notin> insert (dedup_key a) S
          \<and> (\<forall>r \<in> set (take i rs). dedup_key r \<noteq> dedup_key (rs ! i)))"
      for i by auto
    show ?thesis
      unfolding positions_Cons using False
      by (simp add: same Cons.IH [of "insert (dedup_key a) S"])
  qed
qed

text \<open>
  Claim C5.  The deduplication compares records by the key of the specification: title,
  main artists and label, each white-space-collapsed and lower-cased.  Whatever the accepted
  list is, the output holds exactly the records that are the first of their key, in the
  order of the input: it is a subsequence of the input, holds every key of the input
  exactly once, and each record in it is the first record of the input with its key, so
  that every later record with that key is dropped.  The counter \<open>duplicatesRemoved\<close>
  grows by exactly the number of dropped records, input length minus output length, and
  \<open>accepted\<close> is the output length.
\<close>

theorem dedup_first_wins:
  assumes "dedup_phase recs stats = (out, stats')"
  shows "out = map (\<lambda>i. recs ! i) (filter (first_of_key recs) [0 ..< length recs])
    \<and> subseq out recs
    \<and> distinct (map record_key out)
    \<and> record_key ` set out = record_key ` set recs
    \<and> (\<forall>r \<in> set out. find (\<lambda>x. record_key x = record_key r) recs = Some r)
    \<and> length out \<le> length recs
    \<and> duplicatesRemoved stats' = duplicatesRemoved stats + (length recs - length out)
    \<and> accepted stats' = length out"
proof -
  let ?st = "dedup_loop recs \<lparr> dedup = [], seen = {}, dstats = stats \<rparr>"
  have key: "dedup_key = record_key" by (rule ext) (rule dedup_key_record_key)
  from assms have out: "out = fresh {} recs"
    and st: "stats' = (dstats ?st) \<lparr> accepted := length (dedup ?st) \<rparr>"
    by (auto simp: dedup_phase_def Let_def dedup_loop_dedup)
  have len: "length out \<le> length recs"
    unfolding out using fresh_subseq by (rule list_emb_length)
  have removed: "duplicatesRemoved (dstats ?st) + length out = duplicatesRemoved stats + length recs"
    unfolding out using dedup_loop_removed [of recs "\<lparr> dedup = [], seen = {}, dstats = stats \<rparr>"] by simp
  have "out = map (\<lambda>i. recs ! i) (filter (first_of_key recs) [0 ..< length recs])"
    unfolding out fresh_positions [of "{}" recs] first_of_key_def key by simp
  moreover have "subseq out recs" unfolding out by (rule fresh_subseq)
  moreover have "distinct (map record_key out)"
    unfolding out key [symmetric] by (rule fresh_distinct)
  moreover have "record_key ` set out = record_key ` set recs"
    unfolding out key [symmetric] by (simp add: fresh_keys)
  moreover have "\<forall>r \<in> set out. find (\<lambda>x. record_key x = record_key r) recs = Some r"
    unfolding out key [symmetric] by (blast intro: fresh_first)
  moreover have "duplicatesRemoved stats' = duplicatesRemoved stats + (length recs - length out)"
    using removed len by (simp add: st)
  moreover have "accepted stats' = length out"
    by (simp add: st out dedup_loop_dedup)
  ultimately show ?thesis using len by blast
qed

lemma keys_ex:
  "record_key rec_a = js ''goldberg variations||glenn gould||sony''"
  "record_key rec_b = js ''goldberg variations||glenn gould||sony''"
  "record_key rec_c = js ''goldberg variations||glenn gould||decca''"
  "record_key rec_d = js ''goldberg variations||andras schiff||sony''"
  "record_key rec_e = js ''slavonic dances||anton'' @ [237] @ js ''n dvo'' @ [345, 225]
      @ js ''k||'' @ [322, 243] @ js ''d'' @ [378] @ js '' records''"
  "record_key rec_f = js ''slavonic dances||anton'' @ [237] @ js ''n dvo'' @ [345, 225]
      @ js ''k||'' @ [322, 243] @ js ''d'' @ [378] @ js '' records''"
  "record_key rec_g = js ''partitas||glenn gould||sony''"
  by code_simp+

lemma phase_ex:
  "dedup_phase [rec_a, rec_b, rec_c, rec_d, rec_e, rec_f, rec_g] stats0
     = ([rec_a, rec_c, rec_d, rec_e, rec_g], stats0 \<lparr> accepted := 5, duplicatesRemoved := 2 \<rparr>)"
  by code_simp

lemma firsts_ex:
  "filter (first_of_key [rec_a, rec_b, rec_c, rec_d, rec_e, rec_f, rec_g])
       [0 ..< length [rec_a, rec_b, rec_c, rec_d, rec_e, rec_f, rec_g]]
     = [0, 2, 3, 4, 6]"
  by code_simp

text \<open>The theorem at the seven example records: the second and the sixth are dropped, their
  keys being those of the first and of the fifth.\<close>

theorem dedup_first_wins_witness:
  "dedup_phase [rec_a, rec_b, rec_c, rec_d, rec_e, rec_f, rec_g] stats0
     = ([rec_a, rec_c, rec_d, rec_e, rec_g], stats0 \<lparr> accepted := 5, duplicatesRemoved := 2 \<rparr>)
   \<and> record_key rec_b = record_key rec_a
   \<and> record_key rec_f = record_key rec_e
   \<and> record_key rec_e = js ''slavonic dances||anton'' @ [237] @ js ''n dvo'' @ [345, 225]
      @ js ''k||'' @ [322, 243] @ js ''d'' @ [378] @ js '' records''
   \<and> [rec_a, rec_c, rec_d, rec_e, rec_g]
      = map (\<lambda>i. [rec_a, rec_b, rec_c, rec_d, rec_e, rec_f, rec_g] ! i) [0, 2, 3, 4, 6]
   \<and> subseq [rec_a, rec_c, rec_d, rec_e, rec_g] [rec_a, rec_b, rec_c, rec_d, rec_e, rec_f, rec_g]
   \<and> distinct (map record_key [rec_a, rec_c, rec_d, rec_e, rec_g])
   \<and> find (\<lambda>x. record_key x = record_key rec_e) [rec_a, rec_b, rec_c, rec_d, rec_e, rec_f, rec_g]
       = Some rec_e
   \<and> duplicatesRemoved (stats0 \<lparr> accepted := 5, duplicatesRemoved := 2 \<rparr>)
       = duplicatesRemoved stats0 + (7 - 5)"
proof -
  let ?recs = "[rec_a, rec_b, rec_c, rec_d, rec_e, rec_f, rec_g]"
  let ?out = "[rec_a, rec_c, rec_d, rec_e, rec_g]"
  note t = dedup_first_wins [OF phase_ex]
  from t have "?out = map (\<lambda>i. ?recs ! i) (filter (first_of_key ?recs) [0 ..< length ?recs])"
    by (rule conjunct1)
  then have positions: "?out = map (\<lambda>i. ?recs ! i) [0, 2, 3, 4, 6]"
    by (simp only: firsts_ex)
  from t have order: "subseq ?out ?recs" by blast
  from t have once: "distinct (map record_key ?out)" by blast
  from t have "\<forall>r \<in> set ?out. find (\<lambda>x. record_key x = record_key r) ?recs = Some r"
    by blast
  then have first: "find (\<lambda>x. record_key x = record_key rec_e) ?recs = Some rec_e" by simp
  from t have "duplicatesRemoved (stats0 \<lparr> accepted := 5, duplicatesRemoved := 2 \<rparr>)
       = duplicatesRemoved stats0 + (length ?recs - length ?out)"
    by blast
  then have counted: "duplicatesRemoved (stats0 \<lparr> accepted := 5, duplicatesRemoved := 2 \<rparr>)
       = duplicatesRemoved stats0 + (7 - 5)"
    by simp
  have same: "record_key rec_b = record_key rec_a" "record_key rec_f = record_key rec_e"
    by (simp_all only: keys_ex)
  from phase_ex same keys_ex(5) positions order once first counted show ?thesis
    by (intro conjI)
qed

section \<open>The fetch layer\<close>

text \<open>A body is returned only for an answer with status 200 that carries it.\<close>

lemma fetch_attempts_body_200:
  "fetch_attempts net config url attempt st = (Some text, st') \<Longrightarrow>
     \<exists>k. net k url = Response 200 (Some text)"
proof (induction net config url attempt st rule: fetch_attempts.induct)
  case (1 net config url attempt st)
  show ?case
  proof (cases "attempt \<le> retries config")
    case False
    with 1(4) show ?thesis by (simp add: fetch_attempts.simps [of net config url attempt st])
  next
    case le: True
    let ?st1 = "st \<lparr> requests := requests st + 1 \<rparr>"
    show ?thesis
    proof (cases "net (requests st) url")
      case Failure
      with le 1(4) have "fetch_attempts net config url (attempt + 1)
          (sleep (1000 * 2 ^ (attempt - 1)) ?st1) = (Some text, st')"
        by (simp add: fetch_attempts.simps [of net config url attempt st] Let_def)
      with le show ?thesis by (intro 1(1)) auto
    next
      case (Response status body)
      consider "status = 429" | "status \<noteq> 429" "status \<ge> 500 \<and> status < 600"
        | "status \<noteq> 429" "\<not> (status \<ge> 500 \<and> status < 600)" "status \<noteq> 200"
        | "status = 200" by fastforce
      then show ?thesis
      proof cases
        case 1
        with le Response \<open>fetch_attempts net config url attempt st = (Some text, st')\<close>
        have "fetch_attempts net config url (attempt + 1)
            (sleep (2000 * 2 ^ (attempt - 1)) ?st1) = (Some text, st')"
          by (simp add: fetch_attempts.simps [of net config url attempt st] Let_def)
        with le Response 1 show ?thesis by (intro "1.IH"(2)) auto
      next
        case 2
        with le Response \<open>fetch_attempts net config url attempt st = (Some text, st')\<close>
        have "fetch_attempts net config url (attempt + 1)
            (sleep (1000 * 2 ^ (attempt - 1)) ?st1) = (Some text, st')"
          by (simp add: fetch_attempts.simps [of net config url attempt st] Let_def)
        with le Response 2 show ?thesis by (intro "1.IH"(3)) auto
      next
        case 3
        with le Response \<open>fetch_attempts net config url attempt st = (Some text, st')\<close>
        show ?thesis
          by (simp add: fetch_attempts.simps [of net config url attempt st] Let_def)
      next
        case 4
        show ?thesis
        proof (cases body)
          case None
          with 4 le Response \<open>fetch_attempts net config url attempt st = (Some text, st')\<close>
          have "fetch_attempts net config url (attempt + 1)
              (sleep (1000 * 2 ^ (attempt - 1)) ?st1) = (Some text, st')"
            by (simp add: fetch_attempts.simps [of net config url attempt st] Let_def)
          with le show ?thesis by (intro "1.IH"(1)) auto
        next
          case (Some t)
          with 4 le Response \<open>fetch_attempts net config url attempt st = (Some text, st')\<close>
          have "t = text"
            by (simp add: fetch_attempts.simps [of net config url attempt st] Let_def)
          with Some 4 Response show ?thesis by auto
        qed
      qed
    qed
  qed
qed

text \<open>
  Claim C3 says that the initial request is attempted for every configured
  \<open>retries \<ge> 0\<close>.  With \<open>retries = 0\<close>, a value the configuration accepts, the loop of
  \<open>fetchHtml\<close> is not entered: whatever the network would answer, no request is made
  (the number of requests is unchanged), nothing is slept, \<open>httpErrors\<close> is incremented
  and the result is \<open>null\<close>.
\<close>

theorem fetchHtml_zero_retries:
  "fetchHtml net (config \<lparr> retries := 0 \<rparr>) url st =
     (None, st \<lparr> rstats := (rstats st) \<lparr> httpErrors := httpErrors (rstats st) + 1 \<rparr> \<rparr>)"
  by (simp add: fetchHtml_def fetch_attempts.simps http_error_def)

text \<open>With one attempt configured, the same network gives the page.\<close>

lemma fetchHtml_one_attempt:
  "fetchHtml net_ok (config \<lparr> retries := 1 \<rparr>) url run0 =
     (Some (js ''<html></html>''), run0 \<lparr> requests := 1 \<rparr>)"
  by (simp add: fetchHtml_def fetch_attempts.simps net_ok_def run0_def)

section \<open>The filter stages\<close>

text \<open>
  Claim C2.  For a candidate whose album page gave details, the stages run in the order
  date mismatch, genre root, minimum length.  A date mismatch alone decides the new state,
  whatever the genre and the length are; a genre that fails decides it whatever the length
  is.  A rejected candidate increments exactly one of \<open>rejectedByDateMismatch\<close>,
  \<open>rejectedByGenre\<close>, \<open>rejectedByLength\<close>, the one of the first stage that fails,
  and an accepted candidate increments none of them.
\<close>

theorem filter_stage_order:
  "(date_mismatch config det \<longrightarrow>
      album_filter config cand det st =
        st \<lparr> astats := (astats st) \<lparr> rejectedByDateMismatch := rejectedByDateMismatch (astats st) + 1 \<rparr> \<rparr>)
   \<and> (\<not> date_mismatch config det \<and> \<not> genre_ok config det \<longrightarrow>
      album_filter config cand det st =
        (let s1 = after_date_stage cand det st
         in s1 \<lparr> astats := (astats s1) \<lparr> rejectedByGenre := rejectedByGenre (astats s1) + 1 \<rparr> \<rparr>))
   \<and> (\<not> date_mismatch config det \<and> genre_ok config det \<and> \<not> long_enough config det \<longrightarrow>
      album_filter config cand det st =
        (let s1 = after_date_stage cand det st
         in s1 \<lparr> astats := (astats s1) \<lparr> rejectedByLength := rejectedByLength (astats s1) + 1 \<rparr> \<rparr>))
   \<and> (\<not> date_mismatch config det \<and> genre_ok config det \<and> long_enough config det \<longrightarrow>
      album_filter config cand det st =
        (let s1 = after_date_stage cand det st
         in s1 \<lparr> accepted_list := accepted_list s1 @ [accepted_record cand det (final_release cand det)] \<rparr>))
   \<and> rejections (album_filter config cand det st) =
        (case rejections st of (d, g, l) \<Rightarrow>
           if date_mismatch config det then (d + 1, g, l)
           else if \<not> genre_ok config det then (d, g + 1, l)
           else if \<not> long_enough config det then (d, g, l + 1)
           else (d, g, l))"
  by (cases "release_date_album det")
     (auto simp: album_filter_def genre_and_length_def date_mismatch_def genre_ok_def
        long_enough_def after_date_stage_def final_release_def rejections_def Let_def)

lemma det_bad_fails_all:
  "date_mismatch config_ex det_bad" "\<not> genre_ok config_ex det_bad" "\<not> long_enough config_ex det_bad"
  by code_simp+

text \<open>The theorem at an album that fails all three stages: only the date mismatch counts.\<close>

theorem filter_stage_order_witness:
  "date_mismatch config_ex det_bad \<and> \<not> genre_ok config_ex det_bad \<and> \<not> long_enough config_ex det_bad
   \<and> album_filter config_ex cand_ex det_bad astate0 =
        astate0 \<lparr> astats := stats0 \<lparr> rejectedByDateMismatch := 1 \<rparr> \<rparr>
   \<and> rejections (album_filter config_ex cand_ex det_bad astate0) = (1, 0, 0)"
  using filter_stage_order [of config_ex det_bad cand_ex astate0] det_bad_fails_all
  by (simp add: astate0_def stats0_def rejections_def)

text \<open>
  Claim C4.  When the album page gives details without a release date, the final date is
  the candidate's listing date and no range check is applied to it: there is no hypothesis
  on that date, \<open>rejectedByDateMismatch\<close> is unchanged, and the candidate is accepted with
  the listing date as soon as the genre and the length pass.  \<open>missingAlbumDate\<close> grows
  by one and exactly one line is appended to the missing-date report: label, album URL,
  listing date, title and artists, separated by tabs.
\<close>

theorem missing_date_fallback:
  assumes "release_date_album det = None"
  shows "missingAlbumDate (astats (album_filter config cand det st)) = missingAlbumDate (astats st) + 1
    \<and> missingRows (album_filter config cand det st) =
        missingRows st @ [label_name cand @ [9] @ cand_album_url cand @ [9]
          @ formatPlDate (release_date_listing cand) @ [9] @ title det @ [9] @ det_main_artists det]
    \<and> rejectedByDateMismatch (astats (album_filter config cand det st)) =
        rejectedByDateMismatch (astats st)
    \<and> accepted_list (album_filter config cand det st) =
        (if genre_ok config det \<and> long_enough config det
         then accepted_list st @ [\<lparr> album_title = title det, main_artists = det_main_artists det,
                label = label_name cand, album_url = cand_album_url cand,
                release_date = release_date_listing cand \<rparr>]
         else accepted_list st)"
  using assms
  by (auto simp: album_filter_def genre_and_length_def genre_ok_def long_enough_def
        missing_row_def accepted_record_def Let_def)

lemma det_nodate_passes:
  "release_date_album det_nodate = None" "genre_ok config_ex det_nodate"
  "long_enough config_ex det_nodate"
  "getTime (release_date_listing cand_late) > getTime (date_to config_ex)"
  by code_simp+

lemma row_late:
  "label_name cand_late @ [9] @ cand_album_url cand_late @ [9]
     @ formatPlDate (release_date_listing cand_late) @ [9] @ title det_nodate @ [9]
     @ det_main_artists det_nodate
   = js ''Alpha'' @ [9] @ js ''https://www.qobuz.com/album/y'' @ [9] @ js ''15.02.2024'' @ [9]
     @ js ''Partitas'' @ [9] @ js ''Glenn Gould''"
  by code_simp

text \<open>The theorem at a candidate whose listing date is after \<open>date_to\<close>: it is accepted
  with that date.\<close>

theorem missing_date_fallback_witness:
  "release_date_album det_nodate = None
   \<and> getTime (release_date_listing cand_late) > getTime (date_to config_ex)
   \<and> missingAlbumDate (astats (album_filter config_ex cand_late det_nodate astate0)) = 1
   \<and> missingRows (album_filter config_ex cand_late det_nodate astate0) =
        [js ''Alpha'' @ [9] @ js ''https://www.qobuz.com/album/y'' @ [9] @ js ''15.02.2024'' @ [9]
          @ js ''Partitas'' @ [9] @ js ''Glenn Gould'']
   \<and> rejectedByDateMismatch (astats (album_filter config_ex cand_late det_nodate astate0)) = 0
   \<and> map release_date (accepted_list (album_filter config_ex cand_late det_nodate astate0)) =
        [Date 1707955200000]"
  using missing_date_fallback [of det_nodate config_ex cand_late astate0] det_nodate_passes row_late
  by (simp add: astate0_def stats0_def cand_late_def)

section \<open>The range of the accepted dates\<close>

lemma each_link_in_range:
  assumes "each_link labelName a b ls cands seen_urls stats = (Inr out, stats')"
    and "\<forall>c \<in> set cands. getTime a \<le> getTime (release_date_listing c)
           \<and> getTime (release_date_listing c) \<le> getTime b"
  shows "\<forall>c \<in> set out. getTime a \<le> getTime (release_date_listing c)
           \<and> getTime (release_date_listing c) \<le> getTime b"
  using assms
proof (induction ls arbitrary: cands seen_urls stats)
  case Nil
  then show ?case by simp
next
  case (Cons link ls)
  show ?case
  proof (cases "str_includes (href link) (js ''/album/'')")
    case False
    with Cons.prems(1) have "each_link labelName a b ls cands seen_urls stats = (Inr out, stats')"
      by simp
    from Cons.IH [OF this Cons.prems(2)] show ?thesis .
  next
    case inc: True
    show ?thesis
    proof (cases "album_link link")
      case (Inl e)
      with inc Cons.prems(1) show ?thesis by simp
    next
      case (Inr albumUrl)
      show ?thesis
      proof (cases "albumUrl \<in> seen_urls")
        case True
        with inc Inr Cons.prems(1)
        have "each_link labelName a b ls cands seen_urls stats = (Inr out, stats')" by simp
        from Cons.IH [OF this Cons.prems(2)] show ?thesis .
      next
        case ns: False
        show ?thesis
        proof (cases "extractListingReleaseDateForLink link albumUrl")
          case (Inl e)
          with inc Inr ns Cons.prems(1)
          have "each_link labelName a b ls cands (insert albumUrl seen_urls)
              (stats \<lparr> parseErrors := parseErrors stats + 1 \<rparr>) = (Inr out, stats')" by simp
          from Cons.IH [OF this Cons.prems(2)] show ?thesis .
        next
          case r: (Inr rel_opt)
          show ?thesis
          proof (cases rel_opt)
            case None
            with inc Inr ns r Cons.prems(1)
            have "each_link labelName a b ls cands (insert albumUrl seen_urls) stats = (Inr out, stats')"
              by simp
            from Cons.IH [OF this Cons.prems(2)] show ?thesis .
          next
            case (Some rel)
            show ?thesis
            proof (cases "getTime rel \<ge> getTime a \<and> getTime rel \<le> getTime b")
              case True
              let ?c = "\<lparr> cand_album_url = albumUrl, label_name = labelName,
                          release_date_listing = rel \<rparr>"
              from True inc Inr ns r Some Cons.prems(1)
              have "each_link labelName a b ls (cands @ [?c]) (insert albumUrl seen_urls) stats
                  = (Inr out, stats')" by simp
              moreover have "\<forall>c \<in> set (cands @ [?c]). getTime a \<le> getTime (release_date_listing c)
                  \<and> getTime (release_date_listing c) \<le> getTime b"
                using True Cons.prems(2) by simp
              ultimately show ?thesis by (rule Cons.IH)
            next
              case False
              with inc Inr ns r Some Cons.prems(1)
              have "each_link labelName a b ls cands (insert albumUrl seen_urls) stats = (Inr out, stats')"
                by auto
              from Cons.IH [OF this Cons.prems(2)] show ?thesis .
            qed
          qed
        qed
      qed
    qed
  qed
qed

lemma extract_in_range:
  assumes "extractAlbumCandidatesFromListing page labelName (date_from config) (date_to config) stats
      = (Inr (cands, h), stats')"
  shows "\<forall>c \<in> set cands. in_range config (release_date_listing c)"
proof -
  from assms obtain s1 where "each_link labelName (date_from config) (date_to config) (anchors page) [] {} stats
      = (Inr cands, s1)"
    by (auto simp: extractAlbumCandidatesFromListing_def split: prod.splits sum.splits)
  from each_link_in_range [OF this] show ?thesis by (simp add: in_range_def)
qed

lemma add_candidates_in_range:
  "\<forall>c \<in> set cs. P (release_date_listing c) \<Longrightarrow> \<forall>c \<in> set (candidates st). P (release_date_listing c)
     \<Longrightarrow> \<forall>c \<in> set (candidates (add_candidates cs st)). P (release_date_listing c)"
proof (induction cs arbitrary: st)
  case Nil
  then show ?case by simp
next
  case (Cons a cs)
  let ?key = "cand_album_url a @ js ''||'' @ label_name a"
  from Cons.prems(1) have rest: "\<forall>c \<in> set cs. P (release_date_listing c)"
    and a: "P (release_date_listing a)" by simp_all
  show ?case
  proof (cases "?key \<in> seenByLabelUrl st")
    case True
    with Cons.IH [OF rest Cons.prems(2)] show ?thesis by (simp add: Let_def)
  next
    case False
    let ?st = "st \<lparr> seenByLabelUrl := insert ?key (seenByLabelUrl st),
      candidates := candidates st @ [a] \<rparr>"
    have "\<forall>c \<in> set (candidates ?st). P (release_date_listing c)"
      using a Cons.prems(2) by simp
    from Cons.IH [OF rest this] False show ?thesis by (simp add: Let_def)
  qed
qed

lemma pages_loop_in_range:
  "\<forall>c \<in> set (candidates st). in_range config (release_date_listing c) \<Longrightarrow>
     \<forall>c \<in> set (candidates (pages_loop w config labelName normalized page st)).
        in_range config (release_date_listing c)"
proof (induction w config labelName normalized page st rule: pages_loop.induct)
  case (1 w config labelName normalized page st)
  let ?P = "\<lambda>st. \<forall>c \<in> set (candidates st). in_range config (release_date_listing c)"
  show ?case
  proof (cases "\<not> page \<le> max_pages_per_label config \<or> (page > 1 \<and> max_pages_per_label config \<le> 1)")
    case True
    then show ?thesis using 1(4) by (auto simp: pages_loop.simps [of w config labelName normalized page st])
  next
    case go': False
    then have go: "page \<le> max_pages_per_label config"
      "(Suc 0 < page \<and> max_pages_per_label config \<le> Suc 0) = False"
      "(1 < page \<and> max_pages_per_label config \<le> 1) = False" by auto
    obtain fetched r1 where f: "fetchHtml (wnet w) config (buildLabelPageUrl w normalized page) (lrun st)
        = (fetched, r1)" by (cases "fetchHtml (wnet w) config (buildLabelPageUrl w normalized page) (lrun st)")
    show ?thesis
    proof (cases "html_text fetched = []")
      case True
      have "?P (st \<lparr> lrun := r1 \<rparr>)" using 1(4) by simp
      then have "?P (pages_loop w config labelName normalized (page + 1) (st \<lparr> lrun := r1 \<rparr>))"
        using go' f True by (intro 1(1)) (auto simp: f)
      then show ?thesis
        using f True by (simp add: pages_loop.simps [of w config labelName normalized page st] go)
    next
      case html: False
      obtain res stats' where e: "extractAlbumCandidatesFromListing
          (load_listing w (html_text fetched) (buildLabelPageUrl w normalized page)) labelName
          (date_from config) (date_to config) (rstats r1) = (res, stats')"
        by (cases "extractAlbumCandidatesFromListing
          (load_listing w (html_text fetched) (buildLabelPageUrl w normalized page)) labelName
          (date_from config) (date_to config) (rstats r1)")
      show ?thesis
      proof (cases res)
        case (Inl err)
        let ?st = "st \<lparr> lrun := parse_error (r1 \<lparr> rstats := stats' \<rparr>) \<rparr>"
        have "?P ?st" using 1(4) by simp
        then have "?P (pages_loop w config labelName normalized (page + 1) ?st)"
          using go' f html e Inl by (intro 1(2)) (auto simp: f)
        then show ?thesis
          using f html e Inl
          by (simp add: pages_loop.simps [of w config labelName normalized page st] go)
      next
        case (Inr ch)
        obtain cands has2 where ch: "ch = (cands, has2)" by (cases ch)
        let ?st = "add_candidates cands (st \<lparr> lrun := r1 \<lparr> rstats := stats' \<rparr> \<rparr>)"
        have "\<forall>c \<in> set cands. in_range config (release_date_listing c)"
          using e Inr ch by (intro extract_in_range) simp
        then have p: "?P ?st" using 1(4) by (intro add_candidates_in_range) simp_all
        show ?thesis
        proof (cases "page = 1 \<and> \<not> has2")
          case True
          then have stop: "(page = 1 \<and> \<not> has2) = True" "(page = Suc 0 \<and> \<not> has2) = True"
            by auto
          from p f html e Inr ch show ?thesis
            by (simp add: pages_loop.simps [of w config labelName normalized page st] go stop)
        next
          case False
          have "?P (pages_loop w config labelName normalized (page + 1) ?st)"
            using go' f html e Inr ch False p by (intro 1(3)) (auto simp: f)
          moreover from False
          have stop: "(page = 1 \<and> \<not> has2) = False" "(page = Suc 0 \<and> \<not> has2) = False"
            by auto
          ultimately show ?thesis using f html e Inr ch
            by (simp add: pages_loop.simps [of w config labelName normalized page st] go stop)
        qed
      qed
    qed
  qed
qed


lemma labels_loop_in_range:
  "labels_loop w config ls st = Inr st' \<Longrightarrow>
     \<forall>c \<in> set (candidates st). in_range config (release_date_listing c) \<Longrightarrow>
     \<forall>c \<in> set (candidates st'). in_range config (release_date_listing c)"
proof (induction ls arbitrary: st)
  case Nil
  then show ?case by simp
next
  case (Cons l ls)
  let ?st1 = "st \<lparr> lrun := (lrun st) \<lparr> rstats := (rstats (lrun st))
                  \<lparr> labelsProcessed := labelsProcessed (rstats (lrun st)) + 1 \<rparr> \<rparr> \<rparr>"
  from Cons.prems(1) obtain normalized where n: "normalizeLabelBase w (lurl l) = Inr normalized"
    by (cases "normalizeLabelBase w (lurl l)") (auto simp: Let_def)
  with Cons.prems(1)
  have r: "labels_loop w config ls (pages_loop w config (lname l) normalized 1 ?st1) = Inr st'"
    by (simp add: Let_def)
  have "\<forall>c \<in> set (candidates ?st1). in_range config (release_date_listing c)"
    using Cons.prems(2) by simp
  then have "\<forall>c \<in> set (candidates (pages_loop w config (lname l) normalized 1 ?st1)).
      in_range config (release_date_listing c)" by (rule pages_loop_in_range)
  with r show ?case by (rule Cons.IH)
qed

lemma album_filter_in_range:
  assumes "in_range config (release_date_listing cand)"
    and "\<forall>r \<in> set (accepted_list st). in_range config (release_date r)"
  shows "\<forall>r \<in> set (accepted_list (album_filter config cand det st)). in_range config (release_date r)"
  using assms
  by (cases "release_date_album det")
     (auto simp: album_filter_def genre_and_length_def accepted_record_def in_range_def Let_def)

lemma album_step_in_range:
  assumes "in_range config (release_date_listing cand)"
    and "\<forall>r \<in> set (accepted_list (alb st)). in_range config (release_date r)"
  shows "\<forall>r \<in> set (accepted_list (alb (album_step w config cand st))). in_range config (release_date r)"
proof -
  have "\<forall>r \<in> set (accepted_list (album_filter config cand det (a \<lparr> astats := s \<rparr>))).
      in_range config (release_date r)"
    if "accepted_list a = accepted_list (alb st)" for det a s
    using assms that by (intro album_filter_in_range) simp_all
  then show ?thesis
    using assms(2)
    by (auto simp: album_step_def Let_def split: prod.splits sum.splits option.splits)
qed

lemma album_loop_in_range:
  "\<forall>c \<in> set cs. in_range config (release_date_listing c) \<Longrightarrow>
     \<forall>r \<in> set (accepted_list (alb st)). in_range config (release_date r) \<Longrightarrow>
     \<forall>r \<in> set (accepted_list (alb (album_loop w config cs st))). in_range config (release_date r)"
proof (induction cs arbitrary: st)
  case Nil
  then show ?case by simp
next
  case (Cons c cs)
  from Cons.prems have "in_range config (release_date_listing c)" by simp
  then have "\<forall>r \<in> set (accepted_list (alb (album_step w config c st))). in_range config (release_date r)"
    using Cons.prems(2) by (rule album_step_in_range)
  moreover from Cons.prems(1) have "\<forall>c \<in> set cs. in_range config (release_date_listing c)" by simp
  ultimately show ?case using Cons.IH by simp
qed

lemma dedup_loop_subset: "set (dedup (dedup_loop rs st)) \<subseteq> set (dedup st) \<union> set rs"
proof (induction rs arbitrary: st)
  case Nil
  show ?case by simp
next
  case (Cons r rs)
  have "set (dedup (dedup_step r st)) \<subseteq> set (dedup st) \<union> {r}"
    by (auto simp: dedup_step_def Let_def)
  with Cons [of "dedup_step r st"] show ?case by auto
qed

text \<open>
  Claim C1.  Every record that a run accepts has its release date inside the configured
  range, bounds included, and the records left by the deduplication are among them.  A
  candidate is made only from a listing date in the range; a date of the album page
  outside the range rejects the candidate before it is accepted; and the fallback for a
  missing date takes the listing date, which is in the range.
\<close>

theorem accepted_in_range:
  assumes "scrape w config labels = Inr res"
  shows "(\<forall>r \<in> set (out_accepted res).
            getTime (date_from config) \<le> getTime (release_date r)
            \<and> getTime (release_date r) \<le> getTime (date_to config))
    \<and> set (out_records res) \<subseteq> set (out_accepted res)"
proof -
  let ?run1 = "\<lparr> rstats = stats0 \<lparr> labelsTotal := length labels \<rparr>, requests = 0, sleeps = [] \<rparr>"
  let ?l0 = "\<lparr> candidates = [], seenByLabelUrl = {}, lrun = ?run1 \<rparr>"
  from assms obtain ls where ls: "labels_loop w config labels ?l0 = Inr ls"
    by (cases "labels_loop w config labels ?l0") (auto simp: scrape_def Let_def)
  let ?stats2 = "(rstats (lrun ls)) \<lparr> candidatesTotal := length (candidates ls) \<rparr>"
  let ?d0 = "\<lparr> alb = \<lparr> accepted_list = [], missingRows = [], astats = ?stats2 \<rparr>,
      drequests = requests (lrun ls), dsleeps = sleeps (lrun ls) \<rparr>"
  let ?ds = "album_loop w config (candidates ls) ?d0"
  from assms ls have acc: "out_accepted res = accepted_list (alb ?ds)"
    and recs: "out_records res = fst (dedup_phase (accepted_list (alb ?ds)) (astats (alb ?ds)))"
    by (auto simp: scrape_def Let_def split: prod.splits)
  have "\<forall>c \<in> set (candidates ls). in_range config (release_date_listing c)"
    using ls by (rule labels_loop_in_range) simp
  then have "\<forall>r \<in> set (accepted_list (alb ?ds)). in_range config (release_date r)"
    by (rule album_loop_in_range) simp
  then have 1: "\<forall>r \<in> set (out_accepted res).
            getTime (date_from config) \<le> getTime (release_date r)
            \<and> getTime (release_date r) \<le> getTime (date_to config)"
    by (simp add: acc in_range_def)
  have 2: "set (out_records res) \<subseteq> set (out_accepted res)"
    using dedup_loop_subset [of "accepted_list (alb ?ds)"
        "\<lparr> dedup = [], seen = {}, dstats = astats (alb ?ds) \<rparr>"]
    by (simp add: recs acc dedup_phase_def Let_def)
  from 1 2 show ?thesis by blast
qed

lemma run_ex: "scrape world_ex config_ex labels_ex = Inr result_ex"
  by code_simp

text \<open>The theorem at a run on one label with two album links, of which the one dated
  15 February 2024 is no candidate and the one dated 10 January 2024 is accepted.\<close>

theorem accepted_in_range_witness:
  "scrape world_ex config_ex labels_ex = Inr result_ex
   \<and> map release_date (out_accepted result_ex) = [Date 1704844800000]
   \<and> getTime (date_from config_ex) \<le> 1704844800000
   \<and> 1704844800000 \<le> getTime (date_to config_ex)
   \<and> out_records result_ex = out_accepted result_ex"
  using accepted_in_range [OF run_ex] run_ex
  by (simp add: result_ex_def record_ex_def)

end
